theory Spec2Isabelle
  imports Complex_Main "HOL-Library.Sublist" "HOL-Library.Multiset" "HOL-Library.AList"
begin

section \<open>Data model\<close>

text \<open>
  A task is a Python dictionary. A key can be missing, can hold \<open>None\<close>, or can hold a
  value; \<open>validate_task\<close> tells the first two from the third, \<open>dict.get\<close> with a default
  tells the first from the other two. The required keys are therefore three-valued.
  The optional keys \<open>id\<close> and \<open>dependencies\<close> are either missing or hold a value of their
  declared type (an integer, a list of integers: \<open>serializers.py\<close>, \<open>models.py\<close>).
  \<open>estimated_hours\<close> and \<open>importance\<close> are integers, as both files declare them.

  A calendar date is its day number (the proleptic ordinal), so that
  \<open>(due_date - today).days\<close> is a subtraction of integers. The two things the code takes
  from its environment are parameters of the model: \<open>today\<close>, the value of
  \<open>date.today()\<close>, and \<open>strptime\<close>, the library parser for \<open>'%Y-%m-%d'\<close>, which yields
  the day number of the date or \<open>None\<close> where the library raises \<open>ValueError\<close>.
\<close>

datatype 'a field = Absent | Null | Val 'a

datatype due_value = DateStr string | DateObj int

datatype py_error = ValueError | TypeError | KeyError | OverflowError | RecursionError

record task =
  task_id :: "int option"
  title :: "string field"
  due_date :: "due_value field"
  estimated_hours :: "int field"
  importance :: "int field"
  dependencies :: "int list option"

text \<open>\<open>task.get(key)\<close>: the value, or \<open>None\<close> for a missing key and for a stored \<open>None\<close>.\<close>

fun get :: "'a field \<Rightarrow> 'a option" where
  "get Absent = None"
| "get Null = None"
| "get (Val v) = Some v"

text \<open>\<open>task.get(key, default)\<close>: the default replaces a missing key only.\<close>

fun get_default :: "'a field \<Rightarrow> 'a \<Rightarrow> 'a option" where
  "get_default Absent d = Some d"
| "get_default Null d = None"
| "get_default (Val v) d = Some v"

text \<open>\<open>t.get('dependencies', [])\<close> and \<open>task.get('id', d)\<close>.\<close>

definition get_dependencies :: "task \<Rightarrow> int list" where
  "get_dependencies t = (case dependencies t of None \<Rightarrow> [] | Some ds \<Rightarrow> ds)"

definition get_id :: "task \<Rightarrow> int \<Rightarrow> int" where
  "get_id t d = (case task_id t of None \<Rightarrow> d | Some i \<Rightarrow> i)"

subsection \<open>Formatting integers\<close>

text \<open>\<open>str(n)\<close> and \<open>{n}\<close> in an f-string, for a Python integer: its decimal digits.\<close>

definition digit_char :: "nat \<Rightarrow> char" where
  "digit_char d = ''0123456789'' ! d"

function str_nat :: "nat \<Rightarrow> string" where
  "str_nat n = (if n < 10 then [digit_char n] else str_nat (n div 10) @ [digit_char (n mod 10)])"
  by pat_completeness auto
termination
  by (relation "measure (\<lambda>n. n)") auto

declare str_nat.simps [simp del]

definition str_int :: "int \<Rightarrow> string" where
  "str_int i = (if i < 0 then ''-'' @ str_nat (nat (- i)) else str_nat (nat i))"

section \<open>The validator\<close>

text \<open>\<open>field not in task or task[field] is None\<close>, for the four names of \<open>required_fields\<close>.\<close>

definition required_fields :: "string list" where
  "required_fields = [''title'', ''due_date'', ''estimated_hours'', ''importance'']"

definition unset :: "'a field \<Rightarrow> bool" where
  "unset f = (case f of Val v \<Rightarrow> False | Absent \<Rightarrow> True | Null \<Rightarrow> True)"

definition field_missing :: "task \<Rightarrow> string \<Rightarrow> bool" where
  "field_missing t name =
     (if name = ''title'' then unset (title t)
      else if name = ''due_date'' then unset (due_date t)
      else if name = ''estimated_hours'' then unset (estimated_hours t)
      else if name = ''importance'' then unset (importance t)
      else True)"

text \<open>
  \<open>validate_task\<close> returns the pair \<open>(is_valid, error_message)\<close>. Comparing \<open>None\<close> with
  a number raises \<open>TypeError\<close> in Python; the model keeps these branches, and they are
  shown unreachable below. The \<open>ValueError\<close> of the parser is caught by the code.
\<close>

definition validate_task :: "(string \<Rightarrow> int option) \<Rightarrow> task \<Rightarrow> py_error + (bool \<times> string)" where
  "validate_task strptime t =
     (case find (field_missing t) required_fields of
        Some name \<Rightarrow> Inr (False, ''Missing required field: '' @ name)
      | None \<Rightarrow>
         (case get (importance t) of
            None \<Rightarrow> Inl TypeError
          | Some imp \<Rightarrow>
             if \<not> (1 \<le> imp \<and> imp \<le> 10)
             then Inr (False, ''Importance must be between 1-10, got '' @ str_int imp)
             else
               (case get (estimated_hours t) of
                  None \<Rightarrow> Inl TypeError
                | Some hours \<Rightarrow>
                   if hours \<le> 0
                   then Inr (False, ''Estimated hours must be positive, got '' @ str_int hours)
                   else
                     (case due_date t of
                        Val (DateStr s) \<Rightarrow>
                          (case strptime s of
                             None \<Rightarrow> Inr (False, ''Invalid date format. Use YYYY-MM-DD'')
                           | Some d \<Rightarrow> Inr (True, ''''))
                      | _ \<Rightarrow> Inr (True, '''')))))"

text \<open>
  The validator as the specification words it: an error of one of four kinds, found by
  four checks in a fixed order. \<open>error_message\<close> is the text the code gives each kind.
\<close>

datatype validation_error =
  MissingField string | OutOfRange int | InvalidEffort int | InvalidDate

definition error_message :: "validation_error \<Rightarrow> string" where
  "error_message e =
     (case e of
        MissingField name \<Rightarrow> ''Missing required field: '' @ name
      | OutOfRange imp \<Rightarrow> ''Importance must be between 1-10, got '' @ str_int imp
      | InvalidEffort hours \<Rightarrow> ''Estimated hours must be positive, got '' @ str_int hours
      | InvalidDate \<Rightarrow> ''Invalid date format. Use YYYY-MM-DD'')"

definition validate_spec :: "(string \<Rightarrow> int option) \<Rightarrow> task \<Rightarrow> validation_error option" where
  "validate_spec strptime t =
     (case (title t, due_date t, estimated_hours t, importance t) of
        (Val ti, Val du, Val hours, Val imp) \<Rightarrow>
          if imp < 1 \<or> 10 < imp then Some (OutOfRange imp)
          else if hours \<le> 0 then Some (InvalidEffort hours)
          else (case du of
                  DateStr s \<Rightarrow> if strptime s = None then Some InvalidDate else None
                | DateObj d \<Rightarrow> None)
      | (Val ti, Val du, Val hours, _) \<Rightarrow> Some (MissingField ''importance'')
      | (Val ti, Val du, _, _) \<Rightarrow> Some (MissingField ''estimated_hours'')
      | (Val ti, _, _, _) \<Rightarrow> Some (MissingField ''due_date'')
      | _ \<Rightarrow> Some (MissingField ''title''))"

section \<open>The scoring strategies\<close>

text \<open>
  Scores are Python numbers: integers, except for the overdue branch of the balanced
  strategy, whose \<open>overdue_days ** 1.5\<close> is a float. The model computes in the reals,
  which hold the integers exactly and idealise the float (no rounding error of the
  power and of the additions that follow it).

  The reason fragments are the byte strings of the source file (UTF-8), so each symbol
  the code puts in front of a fragment is the list of its bytes.
\<close>

definition warning_sign :: string where
  "warning_sign = [CHR 0xE2, CHR 0x9A, CHR 0xA0, CHR 0xEF, CHR 0xB8, CHR 0x8F]"

definition fire :: string where
  "fire = [CHR 0xF0, CHR 0x9F, CHR 0x94, CHR 0xA5]"

definition alarm_clock :: string where
  "alarm_clock = [CHR 0xE2, CHR 0x8F, CHR 0xB0]"

definition calendar :: string where
  "calendar = [CHR 0xF0, CHR 0x9F, CHR 0x93, CHR 0x85]"

definition tear_off_calendar :: string where
  "tear_off_calendar = [CHR 0xF0, CHR 0x9F, CHR 0x93, CHR 0x86]"

definition gem :: string where
  "gem = [CHR 0xF0, CHR 0x9F, CHR 0x92, CHR 0x8E]"

definition high_voltage :: string where
  "high_voltage = [CHR 0xE2, CHR 0x9A, CHR 0xA1]"

definition sparkles :: string where
  "sparkles = [CHR 0xE2, CHR 0x9C, CHR 0xA8]"

definition hourglass :: string where
  "hourglass = [CHR 0xE2, CHR 0x8F, CHR 0xB3]"

definition unlocked :: string where
  "unlocked = [CHR 0xF0, CHR 0x9F, CHR 0x94, CHR 0x93]"

definition less_equal_sign :: string where
  "less_equal_sign = [CHR 0xE2, CHR 0x89, CHR 0xA4]"

subsection \<open>The balanced strategy\<close>

text \<open>Step 1 of \<open>_calculate_smart_balance\<close>: \<open>urgency_score\<close> and the reason it appends.\<close>

definition urgency :: "int \<Rightarrow> real \<times> string" where
  "urgency days_until_due =
     (if days_until_due < 0 then
        (let overdue_days = \<bar>days_until_due\<bar> in
         (100 + real_of_int overdue_days powr 1.5,
          warning_sign @ '' OVERDUE by '' @ str_int overdue_days @ '' days''))
      else if days_until_due = 0 then (95, fire @ '' Due TODAY'')
      else if days_until_due \<le> 2 then
        (80, alarm_clock @ '' Due in '' @ str_int days_until_due @ '' days'')
      else if days_until_due \<le> 7 then (50, calendar @ '' Due this week'')
      else
        (real_of_int (max 10 (50 - (days_until_due - 7) * 2)),
         tear_off_calendar @ '' Due in '' @ str_int days_until_due @ '' days''))"

text \<open>Step 3: \<open>effort_bonus\<close> and the reasons it appends (none between 2 and 4 hours).\<close>

definition effort :: "int \<Rightarrow> real \<times> string list" where
  "effort hours =
     (if hours \<le> 1 then
        (25, [high_voltage @ '' Quick win ('' @ less_equal_sign @ ''1hr)''])
      else if hours \<le> 2 then
        (15, [sparkles @ '' Fast task ('' @ less_equal_sign @ ''2hrs)''])
      else if hours \<le> 4 then (5, [])
      else (- 5, [hourglass @ '' Long task ('' @ str_int hours @ ''hrs)'']))"

text \<open>Step 4: \<open>sum(1 for t in all_tasks if task_id in t.get('dependencies', []))\<close>.\<close>

definition blocking_count :: "int \<Rightarrow> task list \<Rightarrow> int" where
  "blocking_count tid all_tasks =
     sum_list (map (\<lambda>t. 1) (filter (\<lambda>t. tid \<in> set (get_dependencies t)) all_tasks))"

text \<open>
  The arguments are what \<open>calculate_score\<close> passes: \<open>None\<close> for a date, an importance or
  an effort that is \<open>None\<close>, on which the first arithmetic or comparison raises
  \<open>TypeError\<close>. The list \<open>reasons\<close> is extended in place by the code and returned here.
  The parameter \<open>dependencies\<close> is not read by the code.
\<close>

definition calculate_smart_balance ::
  "int \<Rightarrow> int option \<Rightarrow> int option \<Rightarrow> int option \<Rightarrow> int list \<Rightarrow> task list \<Rightarrow> int \<Rightarrow>
   string list \<Rightarrow> py_error + (real \<times> string list)" where
  "calculate_smart_balance today due_arg importance_arg hours_arg deps all_tasks tid reasons =
     (case due_arg of
        None \<Rightarrow> Inl TypeError
      | Some due \<Rightarrow>
         (case importance_arg of
            None \<Rightarrow> Inl TypeError
          | Some imp \<Rightarrow>
             (case hours_arg of
                None \<Rightarrow> Inl TypeError
              | Some hours \<Rightarrow>
                 (let days_until_due = due - today;
                      (urgency_score, urgency_reason) = urgency days_until_due;
                      score1 = 0 + urgency_score;
                      reasons1 = reasons @ [urgency_reason];
                      importance_score = imp * 8;
                      score2 = score1 + real_of_int importance_score;
                      reasons2 = reasons1 @ [gem @ '' Importance: '' @ str_int imp @ ''/10''];
                      (effort_bonus, effort_reasons) = effort hours;
                      score3 = score2 + effort_bonus;
                      reasons3 = reasons2 @ effort_reasons;
                      count = blocking_count tid all_tasks
                  in if count > 0
                     then Inr (score3 + real_of_int (count * 20),
                               reasons3 @ [unlocked @ '' Unblocks '' @ str_int count @ '' task(s)''])
                     else Inr (score3, reasons3)))))"

subsection \<open>The other three strategies\<close>

definition calculate_fastest_wins ::
  "int option \<Rightarrow> int option \<Rightarrow> string list \<Rightarrow> py_error + (real \<times> string list)" where
  "calculate_fastest_wins hours_arg importance_arg reasons =
     (case hours_arg of
        None \<Rightarrow> Inl TypeError
      | Some hours \<Rightarrow>
         (case importance_arg of
            None \<Rightarrow> Inl TypeError
          | Some imp \<Rightarrow>
             (let (score1, reasons1) =
                    (if hours \<le> 1 then (0 + 100, reasons @ [high_voltage @ '' Ultra-fast (<1hr)''])
                     else if hours \<le> 2 then (0 + 70, reasons @ [sparkles @ '' Fast (1-2hrs)''])
                     else if hours \<le> 4 then (0 + 40, reasons)
                     else (0 + 10, reasons))
              in Inr (real_of_int (score1 + imp * 3),
                      reasons1 @ [''Importance: '' @ str_int imp @ ''/10'']))))"

definition calculate_high_impact ::
  "int \<Rightarrow> int option \<Rightarrow> int option \<Rightarrow> string list \<Rightarrow> py_error + (real \<times> string list)" where
  "calculate_high_impact today importance_arg due_arg reasons =
     (case importance_arg of
        None \<Rightarrow> Inl TypeError
      | Some imp \<Rightarrow>
         (case due_arg of
            None \<Rightarrow> Inl TypeError
          | Some due \<Rightarrow>
             (let score = imp * 15;
                  reasons1 = reasons @ [gem @ '' High Impact: '' @ str_int imp @ ''/10''];
                  days_until_due = due - today
              in if days_until_due < 0 then Inr (real_of_int (score + 30), reasons1 @ [''Also overdue''])
                 else if days_until_due \<le> 3 then Inr (real_of_int (score + 15), reasons1)
                 else Inr (real_of_int score, reasons1))))"

definition calculate_deadline_driven ::
  "int \<Rightarrow> int option \<Rightarrow> int option \<Rightarrow> string list \<Rightarrow> py_error + (real \<times> string list)" where
  "calculate_deadline_driven today due_arg importance_arg reasons =
     (case due_arg of
        None \<Rightarrow> Inl TypeError
      | Some due \<Rightarrow>
         (let days_until_due = due - today;
              (score, reasons1) =
                (if days_until_due < 0 then
                   (200 + \<bar>days_until_due\<bar> * 10,
                    reasons @ [warning_sign @ '' OVERDUE by '' @ str_int \<bar>days_until_due\<bar> @ '' days''])
                 else if days_until_due = 0 then (180, reasons @ [fire @ '' Due TODAY''])
                 else if days_until_due \<le> 7 then
                   (150 - days_until_due * 10,
                    reasons @ [alarm_clock @ '' Due in '' @ str_int days_until_due @ '' days''])
                 else
                   (max 20 (100 - days_until_due),
                    reasons @ [calendar @ '' '' @ str_int days_until_due @ '' days away'']))
          in case importance_arg of
               None \<Rightarrow> Inl TypeError
             | Some imp \<Rightarrow> Inr (real_of_int (score + imp * 2), reasons1)))"

subsection \<open>The orchestrator\<close>

text \<open>\<open>" | ".join(reasons)\<close>.\<close>

fun join :: "string \<Rightarrow> string list \<Rightarrow> string" where
  "join sep [] = []"
| "join sep [x] = x"
| "join sep (x # y # ys) = x @ sep @ join sep (y # ys)"

text \<open>
  \<open>round(score, 2)\<close> returns an integer score as it is and rounds a float to two decimal
  places. On the reals this is rounding to the nearest hundredth. A score of this
  program is an integer plus, when overdue, \<open>n ** 1.5\<close> for an integer \<open>n\<close>, which is an
  integer or irrational: it never lies halfway between two hundredths, so the rule for
  ties plays no part.
\<close>

definition py_round2 :: "real \<Rightarrow> real" where
  "py_round2 x = real_of_int (round (x * 100)) / 100"

text \<open>
  The date of a task: a string is parsed, and a failed parse raises \<open>ValueError\<close>; a
  date is taken as it is; a missing key and a stored \<open>None\<close> give \<open>None\<close>.
\<close>

definition parse_due_date :: "(string \<Rightarrow> int option) \<Rightarrow> due_value field \<Rightarrow> py_error + int option" where
  "parse_due_date strptime f =
     (case f of
        Val (DateStr s) \<Rightarrow> (case strptime s of None \<Rightarrow> Inl ValueError | Some d \<Rightarrow> Inr (Some d))
      | Val (DateObj d) \<Rightarrow> Inr (Some d)
      | _ \<Rightarrow> Inr None)"

text \<open>
  \<open>calculate_score\<close> of a scorer whose \<open>self.strategy\<close> is the string \<open>strategy\<close>. A
  call without \<open>all_tasks\<close> is a call with the empty list.
\<close>

definition calculate_score ::
  "(string \<Rightarrow> int option) \<Rightarrow> int \<Rightarrow> string \<Rightarrow> task \<Rightarrow> task list \<Rightarrow> py_error + (real \<times> string)" where
  "calculate_score strptime today strategy t all_tasks =
     (case parse_due_date strptime (due_date t) of
        Inl e \<Rightarrow> Inl e
      | Inr due \<Rightarrow>
         (let imp = get_default (importance t) 5;
              hours = get_default (estimated_hours t) 1;
              deps = get_dependencies t;
              tid = get_id t 0;
              scored =
                (if strategy = ''fastest_wins'' then calculate_fastest_wins hours imp []
                 else if strategy = ''high_impact'' then calculate_high_impact today imp due []
                 else if strategy = ''deadline_driven'' then calculate_deadline_driven today due imp []
                 else calculate_smart_balance today due imp hours deps all_tasks tid [])
          in case scored of
               Inl e \<Rightarrow> Inl e
             | Inr (score, reasons) \<Rightarrow> Inr (py_round2 score, join '' | '' reasons)))"

section \<open>Python's numbers\<close>

text \<open>
  The scorers above compute in the reals. That is exact wherever the code computes with
  integers, which is everywhere but the overdue branch of the balanced strategy: there
  \<open>overdue_days ** 1.5\<close> is a float, every later addition to the score is an addition
  of floats, and \<open>round(score, 2)\<close> rounds a float. What these three operations return
  is fixed by the interpreter and not by the program, so the functions of this section
  take them as a parameter: \<open>float_power x y\<close> for \<open>x ** y\<close> and \<open>float_add x y\<close> for
  \<open>x + y\<close> (an integer operand is converted to a float first; the conversion and the
  power raise \<open>OverflowError\<close> beyond the range of the floats), and \<open>float_round x\<close>
  for \<open>round(x, 2)\<close>. A float is the real number it denotes. The infinity, which an
  addition of two floats returns beyond their range instead of raising, is not a number
  of this model: \<open>float_add\<close> is an error there too.
\<close>

record float_ops =
  float_power :: "real \<Rightarrow> real \<Rightarrow> py_error + real"
  float_add :: "real \<Rightarrow> real \<Rightarrow> py_error + real"
  float_round :: "real \<Rightarrow> real"

text \<open>A number of the program: an integer, held exactly, or a float.\<close>

datatype number = Exact real | Float real

fun number_value :: "number \<Rightarrow> real" where
  "number_value (Exact x) = x"
| "number_value (Float x) = x"

text \<open>Sequencing of steps that can raise: the first error ends the computation.\<close>

definition and_then :: "py_error + 'a \<Rightarrow> ('a \<Rightarrow> py_error + 'b) \<Rightarrow> py_error + 'b" where
  "and_then r f = (case r of Inl e \<Rightarrow> Inl e | Inr x \<Rightarrow> f x)"

text \<open>\<open>a + b\<close>: exact on two integers, the addition of floats otherwise.\<close>

fun plus_number :: "float_ops \<Rightarrow> number \<Rightarrow> number \<Rightarrow> py_error + number" where
  "plus_number ops (Exact x) (Exact y) = Inr (Exact (x + y))"
| "plus_number ops a b =
     and_then (float_add ops (number_value a) (number_value b)) (\<lambda>z. Inr (Float z))"

text \<open>\<open>round(score, 2)\<close>: an integer is returned as it is.\<close>

fun round_number :: "float_ops \<Rightarrow> number \<Rightarrow> number" where
  "round_number ops (Exact x) = Exact x"
| "round_number ops (Float x) = Float (float_round ops x)"

text \<open>Step 1 of \<open>_calculate_smart_balance\<close>, the overdue branch with the float operations.\<close>

definition urgency_float :: "float_ops \<Rightarrow> int \<Rightarrow> py_error + (number \<times> string)" where
  "urgency_float ops days_until_due =
     (if days_until_due < 0 then
        (let overdue_days = \<bar>days_until_due\<bar> in
         and_then (float_power ops (real_of_int overdue_days) 1.5) (\<lambda>p.
         and_then (plus_number ops (Exact 100) (Float p)) (\<lambda>urgency_score.
           Inr (urgency_score,
                warning_sign @ '' OVERDUE by '' @ str_int overdue_days @ '' days''))))
      else if days_until_due = 0 then Inr (Exact 95, fire @ '' Due TODAY'')
      else if days_until_due \<le> 2 then
        Inr (Exact 80, alarm_clock @ '' Due in '' @ str_int days_until_due @ '' days'')
      else if days_until_due \<le> 7 then Inr (Exact 50, calendar @ '' Due this week'')
      else
        Inr (Exact (real_of_int (max 10 (50 - (days_until_due - 7) * 2))),
             tear_off_calendar @ '' Due in '' @ str_int days_until_due @ '' days''))"

text \<open>
  \<open>_calculate_smart_balance\<close> with the float operations. The steps are in the order of
  the code, so that of two errors the one the code meets first is returned.
\<close>

definition calculate_smart_balance_float ::
  "float_ops \<Rightarrow> int \<Rightarrow> int option \<Rightarrow> int option \<Rightarrow> int option \<Rightarrow> int list \<Rightarrow> task list \<Rightarrow> int \<Rightarrow>
   string list \<Rightarrow> py_error + (number \<times> string list)" where
  "calculate_smart_balance_float ops today due_arg importance_arg hours_arg deps all_tasks tid reasons =
     (case due_arg of
        None \<Rightarrow> Inl TypeError
      | Some due \<Rightarrow>
         and_then (urgency_float ops (due - today)) (\<lambda>(urgency_score, urgency_reason).
         and_then (plus_number ops (Exact 0) urgency_score) (\<lambda>score1.
           (case importance_arg of
              None \<Rightarrow> Inl TypeError
            | Some imp \<Rightarrow>
               and_then (plus_number ops score1 (Exact (real_of_int (imp * 8)))) (\<lambda>score2.
                 (case hours_arg of
                    None \<Rightarrow> Inl TypeError
                  | Some hours \<Rightarrow>
                     and_then (plus_number ops score2 (Exact (fst (effort hours)))) (\<lambda>score3.
                       (let reasons3 = reasons @ [urgency_reason]
                                         @ [gem @ '' Importance: '' @ str_int imp @ ''/10'']
                                         @ snd (effort hours);
                            count = blocking_count tid all_tasks
                        in if count > 0
                           then and_then
                                  (plus_number ops score3 (Exact (real_of_int (count * 20))))
                                  (\<lambda>score4.
                                     Inr (score4,
                                          reasons3 @ [unlocked @ '' Unblocks '' @ str_int count
                                                        @ '' task(s)'']))
                           else Inr (score3, reasons3)))))))))"

text \<open>
  \<open>calculate_score\<close> with the float operations. The three other strategies compute
  with integers only.
\<close>

definition calculate_score_float ::
  "float_ops \<Rightarrow> (string \<Rightarrow> int option) \<Rightarrow> int \<Rightarrow> string \<Rightarrow> task \<Rightarrow> task list \<Rightarrow>
   py_error + (number \<times> string)" where
  "calculate_score_float ops strptime today strategy t all_tasks =
     and_then (parse_due_date strptime (due_date t)) (\<lambda>due.
       (let imp = get_default (importance t) 5;
            hours = get_default (estimated_hours t) 1;
            deps = get_dependencies t;
            tid = get_id t 0;
            scored =
              (if strategy = ''fastest_wins'' then
                 and_then (calculate_fastest_wins hours imp []) (\<lambda>(s, r). Inr (Exact s, r))
               else if strategy = ''high_impact'' then
                 and_then (calculate_high_impact today imp due []) (\<lambda>(s, r). Inr (Exact s, r))
               else if strategy = ''deadline_driven'' then
                 and_then (calculate_deadline_driven today due imp []) (\<lambda>(s, r). Inr (Exact s, r))
               else calculate_smart_balance_float ops today due imp hours deps all_tasks tid [])
        in and_then scored (\<lambda>(score, reasons).
             Inr (round_number ops score, join '' | '' reasons))))"

text \<open>
  The scorers of the sections above are these functions with operations that neither
  round nor overflow, shown below (\<open>calculate_score_exact_arithmetic\<close>).
\<close>

definition exact_arithmetic :: float_ops where
  "exact_arithmetic =
     \<lparr>float_power = (\<lambda>x y. Inr (x powr y)),
      float_add = (\<lambda>x y. Inr (x + y)),
      float_round = py_round2\<rparr>"

text \<open>
  The sum of the urgency, importance and effort terms of a task, as the specification
  names it, added with the program's addition.
\<close>

definition three_term_sum ::
  "float_ops \<Rightarrow> int \<Rightarrow> int \<Rightarrow> int \<Rightarrow> py_error + (number \<times> string list)" where
  "three_term_sum ops days_until_due imp hours =
     and_then (urgency_float ops days_until_due) (\<lambda>(urgency_score, urgency_reason).
     and_then (plus_number ops (Exact 0) urgency_score) (\<lambda>s1.
     and_then (plus_number ops s1 (Exact (real_of_int (imp * 8)))) (\<lambda>s2.
     and_then (plus_number ops s2 (Exact (fst (effort hours)))) (\<lambda>s3.
       Inr (s3, [urgency_reason, gem @ '' Importance: '' @ str_int imp @ ''/10'']
                  @ snd (effort hours))))))"

text \<open>Operations that return a float for all arguments.\<close>

definition never_overflows :: "float_ops \<Rightarrow> bool" where
  "never_overflows ops =
     (\<forall>x y. (\<exists>z. float_power ops x y = Inr z) \<and> (\<exists>z. float_add ops x y = Inr z))"

section \<open>The cycle detector\<close>

text \<open>
  \<open>task_map = {t.get('id', i): t for i, t in enumerate(tasks)}\<close>. A Python dictionary
  keeps its keys in the order of their first insertion, and a later value for a key
  replaces the earlier one in place: this is \<open>AList.update\<close> on a list of pairs.
\<close>

definition build_task_map :: "task list \<Rightarrow> (int \<times> task) list" where
  "build_task_map tasks =
     foldl (\<lambda>m (i, t). AList.update (get_id t (int i)) t m) [] (enumerate 0 tasks)"

text \<open>
  The inner function \<open>has_cycle\<close> adds to the sets \<open>visited\<close> and \<open>rec_stack\<close>, which
  the caller sees: the model takes both sets and returns them with the result.
  \<open>has_cycle_for\<close> is its loop over the dependencies, which leaves the function at
  the first \<open>return True\<close>, with the current task still on \<open>rec_stack\<close>.
  \<open>set.remove\<close> raises \<open>KeyError\<close> for an element that is not in the set. A task found
  in the map with no dependencies goes through the loop zero times, which is also what
  the test \<open>if task\<close> does for an empty dictionary.
\<close>

function has_cycle ::
    "(int \<times> task) list \<Rightarrow> int \<Rightarrow> int set \<Rightarrow> int set \<Rightarrow> py_error + (bool \<times> int set \<times> int set)"
  and has_cycle_for ::
    "(int \<times> task) list \<Rightarrow> int list \<Rightarrow> int set \<Rightarrow> int set \<Rightarrow> py_error + (bool \<times> int set \<times> int set)"
where
  "has_cycle task_map tid visited rec_stack =
     (case (case map_of task_map tid of
              None \<Rightarrow> Inr (False, insert tid visited, insert tid rec_stack)
            | Some t \<Rightarrow>
                has_cycle_for task_map (get_dependencies t) (insert tid visited) (insert tid rec_stack)) of
        Inl e \<Rightarrow> Inl e
      | Inr (found, visited', rec_stack') \<Rightarrow>
          if found then Inr (True, visited', rec_stack')
          else if tid \<in> rec_stack' then Inr (False, visited', rec_stack' - {tid})
          else Inl KeyError)"
| "has_cycle_for task_map [] visited rec_stack = Inr (False, visited, rec_stack)"
| "has_cycle_for task_map (dep_id # deps) visited rec_stack =
     (if dep_id \<notin> visited then
        (case has_cycle task_map dep_id visited rec_stack of
           Inl e \<Rightarrow> Inl e
         | Inr (found, visited', rec_stack') \<Rightarrow>
             if found then Inr (True, visited', rec_stack')
             else has_cycle_for task_map deps visited' rec_stack')
      else if dep_id \<in> rec_stack then Inr (True, visited, rec_stack)
      else has_cycle_for task_map deps visited rec_stack)"
  by pat_completeness auto

text \<open>
  Termination: a recursive call is made for an id that is not yet visited, and the ids
  the calls can meet are the dependencies of the tasks of the map, finitely many.
\<close>

definition all_dependencies :: "(int \<times> task) list \<Rightarrow> int set" where
  "all_dependencies task_map = (\<Union>(k, t) \<in> set task_map. set (get_dependencies t))"

definition dependency_count :: "(int \<times> task) list \<Rightarrow> int \<Rightarrow> nat" where
  "dependency_count task_map tid =
     (case map_of task_map tid of None \<Rightarrow> 0 | Some t \<Rightarrow> length (get_dependencies t))"

lemma has_cycle_visited_grows_dom:
  "has_cycle_has_cycle_for_dom (Inl (task_map, tid, visited, rec_stack)) \<Longrightarrow>
     has_cycle task_map tid visited rec_stack = Inr (found, v, r) \<Longrightarrow> visited \<subseteq> v"
  "has_cycle_has_cycle_for_dom (Inr (task_map, deps, visited, rec_stack)) \<Longrightarrow>
     has_cycle_for task_map deps visited rec_stack = Inr (found, v, r) \<Longrightarrow> visited \<subseteq> v"
proof (induct task_map tid visited rec_stack and task_map deps visited rec_stack
       arbitrary: found v r and found v r rule: has_cycle_has_cycle_for.pinduct)
  case (1 task_map tid visited rec_stack)
  then show ?case
    by (auto simp: has_cycle.psimps split: option.splits sum.splits if_splits) blast+
next
  case (2 task_map visited rec_stack)
  then show ?case by (simp add: has_cycle_for.psimps)
next
  case (3 task_map dep_id deps visited rec_stack)
  then show ?case
    by (auto simp: has_cycle_for.psimps split: sum.splits if_splits) blast+
qed

lemma finite_all_dependencies: "finite (all_dependencies task_map)"
  by (auto simp: all_dependencies_def)

lemma map_of_dependencies:
  "map_of task_map tid = Some t \<Longrightarrow> set (get_dependencies t) \<subseteq> all_dependencies task_map"
  by (auto simp: all_dependencies_def dest!: map_of_SomeD)

termination has_cycle
proof (relation "inv_image (less_than <*lex*> less_than)
         (\<lambda>x. case x of
            Inl (task_map, tid, visited, rec_stack) \<Rightarrow>
              (card (all_dependencies task_map - insert tid visited),
               Suc (dependency_count task_map tid))
          | Inr (task_map, deps, visited, rec_stack) \<Rightarrow>
              (card ((all_dependencies task_map \<union> set deps) - visited), length deps))",
       goal_cases)
  case 1
  show ?case by (intro wf_inv_image wf_lex_prod wf_less_than)
next
  case (2 task_map tid visited rec_stack t)
  from map_of_dependencies [OF this]
  have "all_dependencies task_map \<union> set (get_dependencies t) = all_dependencies task_map"
    by blast
  with 2 show ?case by (simp add: dependency_count_def)
next
  case (3 task_map dep_id deps visited rec_stack)
  have "all_dependencies task_map - insert dep_id visited
          \<subset> (all_dependencies task_map \<union> set (dep_id # deps)) - visited"
    using 3 by auto
  then have "card (all_dependencies task_map - insert dep_id visited)
               < card ((all_dependencies task_map \<union> set (dep_id # deps)) - visited)"
    by (intro psubset_card_mono) (simp_all add: finite_all_dependencies)
  then show ?case by simp
next
  case (4 task_map dep_id deps visited rec_stack x found y v r)
  then have "visited \<subseteq> v"
    using has_cycle_visited_grows_dom(1) by blast
  then have "(all_dependencies task_map \<union> set deps) - v
               \<subseteq> (all_dependencies task_map \<union> set (dep_id # deps)) - visited"
    by auto
  then have "card ((all_dependencies task_map \<union> set deps) - v)
               \<le> card ((all_dependencies task_map \<union> set (dep_id # deps)) - visited)"
    by (intro card_mono) (simp_all add: finite_all_dependencies)
  then show ?case by auto
next
  case (5 task_map dep_id deps visited rec_stack)
  have "(all_dependencies task_map \<union> set deps) - visited
               \<subseteq> (all_dependencies task_map \<union> set (dep_id # deps)) - visited"
    by auto
  then have "card ((all_dependencies task_map \<union> set deps) - visited)
               \<le> card ((all_dependencies task_map \<union> set (dep_id # deps)) - visited)"
    by (intro card_mono) (simp_all add: finite_all_dependencies)
  then show ?case by auto
qed

declare has_cycle.simps [simp del]

text \<open>
  The loop of \<open>detect_circular_dependencies\<close> over the keys of the map, with one set
  \<open>visited\<close> for the whole loop and a new \<open>rec_stack\<close> for each key it starts from.
\<close>

fun detect_for :: "(int \<times> task) list \<Rightarrow> int list \<Rightarrow> int set \<Rightarrow> string list \<Rightarrow> py_error + string list" where
  "detect_for task_map [] visited circular = Inr circular"
| "detect_for task_map (tid # keys) visited circular =
     (if tid \<notin> visited then
        (case has_cycle task_map tid visited {} of
           Inl e \<Rightarrow> Inl e
         | Inr (found, visited', rec_stack) \<Rightarrow>
             detect_for task_map keys visited'
               (if found then circular @ [str_int tid] else circular))
      else detect_for task_map keys visited circular)"

definition detect_circular_dependencies :: "task list \<Rightarrow> py_error + string list" where
  "detect_circular_dependencies tasks =
     (let task_map = build_task_map tasks
      in detect_for task_map (map fst task_map) {} [])"

text \<open>The three tasks of the repository's test \<open>test_circular_dependency_detection\<close>.\<close>

definition tasks_with_cycle :: "task list" where
  "tasks_with_cycle =
     [\<lparr>task_id = Some 1, title = Absent, due_date = Absent, estimated_hours = Absent,
       importance = Absent, dependencies = Some [2]\<rparr>,
      \<lparr>task_id = Some 2, title = Absent, due_date = Absent, estimated_hours = Absent,
       importance = Absent, dependencies = Some [3]\<rparr>,
      \<lparr>task_id = Some 3, title = Absent, due_date = Absent, estimated_hours = Absent,
       importance = Absent, dependencies = Some [1]\<rparr>]"

subsection \<open>Dangling dependencies\<close>

text \<open>
  To state what an id outside the task set does, \<open>internal_dependencies ids t\<close> is the
  task \<open>t\<close> without the dependencies that are not in \<open>ids\<close>, and \<open>task_ids tasks\<close> are
  the ids of the tasks of a set, which are the keys of the map of the detector.
\<close>

definition internal_dependencies :: "int set \<Rightarrow> task \<Rightarrow> task" where
  "internal_dependencies ids t =
     t\<lparr>dependencies := map_option (filter (\<lambda>d. d \<in> ids)) (dependencies t)\<rparr>"

definition task_ids :: "task list \<Rightarrow> int set" where
  "task_ids tasks = set (map fst (build_task_map tasks))"

subsection \<open>The recursion limit\<close>

text \<open>
  \<open>has_cycle\<close> calls itself once for every edge it follows, and the interpreter raises
  \<open>RecursionError\<close> on the call that would exceed its recursion limit; nothing in the
  program catches it. \<open>has_cycle_bounded frames\<close> is the function where the interpreter
  allows \<open>frames\<close> more nested calls: a call needs one of them, and its loop runs with
  the rest. The number is fixed by the interpreter and by the depth at which the
  detector is called, so it is a parameter. \<open>has_cycle\<close> above is the function when the
  limit is never reached (\<open>has_cycle_bounded_cases\<close>, \<open>has_cycle_bounded_enough\<close> below).
\<close>

function has_cycle_bounded ::
    "nat \<Rightarrow> (int \<times> task) list \<Rightarrow> int \<Rightarrow> int set \<Rightarrow> int set \<Rightarrow> py_error + (bool \<times> int set \<times> int set)"
  and has_cycle_for_bounded ::
    "nat \<Rightarrow> (int \<times> task) list \<Rightarrow> int list \<Rightarrow> int set \<Rightarrow> int set \<Rightarrow> py_error + (bool \<times> int set \<times> int set)"
where
  "has_cycle_bounded frames task_map tid visited rec_stack =
     (if frames = 0 then Inl RecursionError
      else
        (case (case map_of task_map tid of
                 None \<Rightarrow> Inr (False, insert tid visited, insert tid rec_stack)
               | Some t \<Rightarrow>
                   has_cycle_for_bounded (frames - 1) task_map (get_dependencies t)
                     (insert tid visited) (insert tid rec_stack)) of
           Inl e \<Rightarrow> Inl e
         | Inr (found, visited', rec_stack') \<Rightarrow>
             if found then Inr (True, visited', rec_stack')
             else if tid \<in> rec_stack' then Inr (False, visited', rec_stack' - {tid})
             else Inl KeyError))"
| "has_cycle_for_bounded frames task_map [] visited rec_stack = Inr (False, visited, rec_stack)"
| "has_cycle_for_bounded frames task_map (dep_id # deps) visited rec_stack =
     (if dep_id \<notin> visited then
        (case has_cycle_bounded frames task_map dep_id visited rec_stack of
           Inl e \<Rightarrow> Inl e
         | Inr (found, visited', rec_stack') \<Rightarrow>
             if found then Inr (True, visited', rec_stack')
             else has_cycle_for_bounded frames task_map deps visited' rec_stack')
      else if dep_id \<in> rec_stack then Inr (True, visited, rec_stack)
      else has_cycle_for_bounded frames task_map deps visited rec_stack)"
  by pat_completeness auto
termination
  by (relation "inv_image (less_than <*lex*> less_than)
         (\<lambda>x. case x of
            Inl (frames, task_map, tid, visited, rec_stack) \<Rightarrow> (frames, 0)
          | Inr (frames, task_map, deps, visited, rec_stack) \<Rightarrow> (frames, Suc (length deps)))")
     auto

declare has_cycle_bounded.simps [simp del]

fun detect_for_bounded ::
  "nat \<Rightarrow> (int \<times> task) list \<Rightarrow> int list \<Rightarrow> int set \<Rightarrow> string list \<Rightarrow> py_error + string list" where
  "detect_for_bounded frames task_map [] visited circular = Inr circular"
| "detect_for_bounded frames task_map (tid # keys) visited circular =
     (if tid \<notin> visited then
        (case has_cycle_bounded frames task_map tid visited {} of
           Inl e \<Rightarrow> Inl e
         | Inr (found, visited', rec_stack) \<Rightarrow>
             detect_for_bounded frames task_map keys visited'
               (if found then circular @ [str_int tid] else circular))
      else detect_for_bounded frames task_map keys visited circular)"

definition detect_circular_dependencies_bounded :: "nat \<Rightarrow> task list \<Rightarrow> py_error + string list" where
  "detect_circular_dependencies_bounded frames tasks =
     (let task_map = build_task_map tasks
      in detect_for_bounded frames task_map (map fst task_map) {} [])"



section \<open>The analysis endpoint\<close>

text \<open>
  The body of the request, as \<open>TaskAnalysisRequestSerializer\<close> reads it. The key
  \<open>tasks\<close> is required and must hold a list of objects; \<open>data_tasks\<close> is \<open>None\<close> where
  it is missing or holds anything else. The key \<open>strategy\<close> is optional;
  \<open>data_strategy\<close> is \<open>None\<close> where it is missing.
\<close>

record request_data =
  data_tasks :: "task list option"
  data_strategy :: "string option"

definition strategy_choices :: "string list" where
  "strategy_choices = [''smart_balance'', ''fastest_wins'', ''high_impact'', ''deadline_driven'']"

text \<open>
  The \<open>ChoiceField\<close> of the serializer: a missing strategy is the default, a strategy
  that is given must be one of the four choices. \<open>None\<close> is the field's error.
\<close>

definition validated_strategy :: "string option \<Rightarrow> string option" where
  "validated_strategy given =
     (case given of
        None \<Rightarrow> Some ''smart_balance''
      | Some s \<Rightarrow> if s \<in> set strategy_choices then Some s else None)"

text \<open>
  A scored task is the task with the two derived keys. The score is the number
  \<open>calculate_score\<close> returns, an integer or a float.
\<close>

record scored_task = task +
  priority_score :: number
  explanation :: string

record analysis =
  ranked_tasks :: "scored_task list"
  strategy_used :: string
  total_tasks :: nat
  circular_dependencies :: "string list option"
  validation_errors :: "string list option"

text \<open>
  The details of a 400 response are the serializer's errors, which are not modelled
  further, or the messages of the validation loop.
\<close>

datatype details = Serializer_errors | Messages "string list"

datatype response = HTTP_400 string details | HTTP_200 analysis

text \<open>
  The validation loop over \<open>enumerate(tasks)\<close>: a rejected task adds a message with
  its position, an accepted task gets the id \<open>idx + 1\<close> if it has none.
\<close>

fun validate_for ::
  "(string \<Rightarrow> int option) \<Rightarrow> (nat \<times> task) list \<Rightarrow> task list \<Rightarrow> string list \<Rightarrow>
   py_error + (task list \<times> string list)" where
  "validate_for strptime [] validated_tasks errors = Inr (validated_tasks, errors)"
| "validate_for strptime ((idx, t) # rest) validated_tasks errors =
     (case validate_task strptime t of
        Inl e \<Rightarrow> Inl e
      | Inr (is_valid, error_msg) \<Rightarrow>
          if \<not> is_valid then
            validate_for strptime rest validated_tasks
              (errors @ [''Task '' @ str_int (int idx + 1) @ '': '' @ error_msg])
          else
            validate_for strptime rest
              (validated_tasks @ [if task_id t = None then t\<lparr>task_id := Some (int idx + 1)\<rparr> else t])
              errors)"

text \<open>The scoring loop: every accepted task is scored against all accepted tasks.\<close>

fun score_for ::
  "float_ops \<Rightarrow> (string \<Rightarrow> int option) \<Rightarrow> int \<Rightarrow> string \<Rightarrow> task list \<Rightarrow> task list \<Rightarrow>
   scored_task list \<Rightarrow> py_error + scored_task list" where
  "score_for ops strptime today strategy validated_tasks [] scored_tasks = Inr scored_tasks"
| "score_for ops strptime today strategy validated_tasks (t # rest) scored_tasks =
     (case calculate_score_float ops strptime today strategy t validated_tasks of
        Inl e \<Rightarrow> Inl e
      | Inr (score, expl) \<Rightarrow>
          score_for ops strptime today strategy validated_tasks rest
            (scored_tasks @ [task.extend t \<lparr>priority_score = score, explanation = expl\<rparr>]))"

text \<open>
  \<open>list.sort(key=..., reverse=True)\<close>. Python's sort is stable, and with \<open>reverse=True\<close>
  it still keeps elements of equal key in their original order: the list is reversed,
  sorted in ascending order by a stable sort, and reversed again. The keys are numbers,
  compared by their values.
\<close>

definition sort_reverse :: "('a \<Rightarrow> real) \<Rightarrow> 'a list \<Rightarrow> 'a list" where
  "sort_reverse key xs = rev (sort_key key (rev xs))"

text \<open>
  The view. \<open>frames\<close> is the number of stack frames the interpreter leaves to
  \<open>has_cycle\<close> at the call of the detector. An error that is returned here is an
  exception the view does not catch.
\<close>

definition analyze_tasks ::
  "float_ops \<Rightarrow> nat \<Rightarrow> (string \<Rightarrow> int option) \<Rightarrow> int \<Rightarrow> request_data \<Rightarrow> py_error + response" where
  "analyze_tasks ops frames strptime today data =
     (case (data_tasks data, validated_strategy (data_strategy data)) of
        (Some tasks, Some strategy) \<Rightarrow>
          (case validate_for strptime (enumerate 0 tasks) [] [] of
             Inl e \<Rightarrow> Inl e
           | Inr (validated_tasks, errors) \<Rightarrow>
               if errors \<noteq> [] \<and> validated_tasks = []
               then Inr (HTTP_400 ''All tasks have validation errors'' (Messages errors))
               else
                 (case detect_circular_dependencies_bounded frames validated_tasks of
                    Inl e \<Rightarrow> Inl e
                  | Inr circular_deps \<Rightarrow>
                      (case score_for ops strptime today strategy validated_tasks validated_tasks [] of
                         Inl e \<Rightarrow> Inl e
                       | Inr scored_tasks \<Rightarrow>
                           (let ranked = sort_reverse (\<lambda>x. number_value (priority_score x))
                                           scored_tasks
                            in Inr (HTTP_200
                                 \<lparr>ranked_tasks = ranked,
                                  strategy_used = strategy,
                                  total_tasks = length ranked,
                                  circular_dependencies =
                                    (if circular_deps \<noteq> [] then Some circular_deps else None),
                                  validation_errors =
                                    (if errors \<noteq> [] then Some errors else None)\<rparr>)))))
      | _ \<Rightarrow> Inr (HTTP_400 ''Invalid request format'' Serializer_errors))"

text \<open>
  The accepted tasks in the words of the specification: the tasks the validator
  accepts, in input order, a missing id replaced by the position counted from 1.
\<close>

definition accepted_tasks :: "(string \<Rightarrow> int option) \<Rightarrow> (nat \<times> task) list \<Rightarrow> task list" where
  "accepted_tasks strptime indexed =
     map (\<lambda>(idx, t). if task_id t = None then t\<lparr>task_id := Some (int idx + 1)\<rparr> else t)
       (filter (\<lambda>(idx, t). validate_task strptime t = Inr (True, '''')) indexed)"

section \<open>Properties of the validator\<close>

lemma validate_task_ok:
  assumes "validate_task sp t = Inr (True, '''')"
  shows "\<exists>ti du h i d. title t = Val ti \<and> due_date t = Val du \<and> estimated_hours t = Val h
           \<and> importance t = Val i \<and> 1 \<le> i \<and> i \<le> 10 \<and> 0 < h
           \<and> parse_due_date sp (due_date t) = Inr (Some d)"
  using assms
  by (cases "title t"; cases "due_date t"; cases "estimated_hours t"; cases "importance t")
     (auto simp: validate_task_def required_fields_def field_missing_def unset_def
        parse_due_date_def split: due_value.splits option.splits if_splits)

lemma validate_task_cases:
  "validate_task sp t = Inr (True, '''') \<or> (\<exists>msg. validate_task sp t = Inr (False, msg))"
  by (cases "title t"; cases "due_date t"; cases "estimated_hours t"; cases "importance t")
     (auto simp: validate_task_def required_fields_def field_missing_def unset_def
        split: due_value.splits option.splits)

lemma validate_task_id: "validate_task sp (t\<lparr>task_id := i\<rparr>) = validate_task sp t"
  by (cases "title t"; cases "due_date t"; cases "estimated_hours t"; cases "importance t")
     (auto simp: validate_task_def required_fields_def field_missing_def unset_def
        split: due_value.splits option.splits)

text \<open>
  Claim C6. \<open>validate_task\<close> never raises, and its result is the one the four checks
  of the specification give, taken in their order: the first of \<open>title\<close>, \<open>due_date\<close>,
  \<open>estimated_hours\<close>, \<open>importance\<close> that is missing or \<open>None\<close> is named; then an
  importance outside 1..10 is reported with its value; then a non-positive effort;
  then a date string that does not parse; otherwise the task is valid, with the empty
  message. It fails exactly when \<open>validate_spec\<close> finds an error.
\<close>

theorem validate_task_checks_in_order:
  "validate_task strptime t =
     Inr (case validate_spec strptime t of
            None \<Rightarrow> (True, '''')
          | Some e \<Rightarrow> (False, error_message e))"
proof (cases "title t"; cases "due_date t"; cases "estimated_hours t"; cases "importance t")
qed (auto simp: validate_task_def validate_spec_def required_fields_def field_missing_def
       unset_def error_message_def split: due_value.splits option.splits)

text \<open>The incomplete task of the repository's test: only a title.\<close>

theorem validate_task_checks_in_order_witness:
  "validate_task (\<lambda>s. None)
     \<lparr>task_id = None, title = Val ''Incomplete Task'', due_date = Absent,
      estimated_hours = Absent, importance = Absent, dependencies = None\<rparr>
   = Inr (False, ''Missing required field: due_date'')"
  using validate_task_checks_in_order
    [of "\<lambda>s. None"
        "\<lparr>task_id = None, title = Val ''Incomplete Task'', due_date = Absent,
          estimated_hours = Absent, importance = Absent, dependencies = None\<rparr>"]
  by (simp add: validate_spec_def error_message_def)

section \<open>Properties of the scorers\<close>

subsection \<open>Rounding\<close>

lemma py_round2_add_int: "py_round2 (x + real_of_int n) = py_round2 x + real_of_int n"
proof -
  have "x * 100 + real_of_int n * 100 + 1 / 2 = (x * 100 + 1 / 2) + real_of_int (n * 100)"
    by simp
  then have "round (x * 100 + real_of_int n * 100) = round (x * 100) + n * 100"
    unfolding round_def by (simp only: floor_add_int)
  then show ?thesis by (simp add: py_round2_def algebra_simps)
qed

lemma py_round2_of_int: "py_round2 (real_of_int n) = real_of_int n"
  using py_round2_add_int [of 0 n] by (simp add: py_round2_def)




subsection \<open>The terms of the balanced score\<close>

lemma blocking_count_length:
  "blocking_count tid all_tasks = int (length (filter (\<lambda>t. tid \<in> set (get_dependencies t)) all_tasks))"
  unfolding blocking_count_def by (induction all_tasks) auto





lemma calculate_smart_balance_value:
  "calculate_smart_balance today (Some due) (Some imp) (Some hours) deps all_tasks tid reasons =
     Inr (fst (urgency (due - today)) + real_of_int (imp * 8) + fst (effort hours)
            + real (20 * length (filter (\<lambda>t. tid \<in> set (get_dependencies t)) all_tasks)),
          reasons @ [snd (urgency (due - today)), gem @ '' Importance: '' @ str_int imp @ ''/10'']
            @ snd (effort hours)
            @ (if 0 < length (filter (\<lambda>t. tid \<in> set (get_dependencies t)) all_tasks)
               then [unlocked @ '' Unblocks '' @ str_int (int (length (filter (\<lambda>t. tid \<in> set (get_dependencies t)) all_tasks))) @ '' task(s)'']
               else []))"
  by (simp add: calculate_smart_balance_def blocking_count_length split_beta Let_def)

lemma scenario_due_today_value:
  assumes "parse_due_date strptime (due_date t) = Inr (Some today)"
    and "importance t = Val 5" and "estimated_hours t = Val 1"
    and "filter (\<lambda>u. get_id t 0 \<in> set (get_dependencies u)) all_tasks = []"
  shows "calculate_score strptime today ''smart_balance'' t all_tasks =
           Inr (160, fire @ '' Due TODAY | '' @ gem @ '' Importance: 5/10 | '' @ high_voltage
                      @ '' Quick win ('' @ less_equal_sign @ ''1hr)'')"
  using assms py_round2_of_int [of 160]
  by (simp add: calculate_score_def calculate_smart_balance_def urgency_def effort_def
      blocking_count_length str_int_def str_nat.simps digit_char_def)

text \<open>
  Claim C3. A task due on the current date, of importance 5 and one hour of effort, on
  which no task of \<open>all_tasks\<close> depends, scores exactly 160 under the balanced
  strategy (95 + 40 + 25), and its explanation contains \<open>Due TODAY\<close>,
  \<open>Importance: 5/10\<close> and \<open>Quick win\<close>.
\<close>

theorem smart_balance_scenario_due_today:
  assumes "parse_due_date strptime (due_date t) = Inr (Some today)"
    and "importance t = Val 5" and "estimated_hours t = Val 1"
    and "\<forall>u \<in> set all_tasks. get_id t 0 \<notin> set (get_dependencies u)"
  shows "\<exists>e. calculate_score strptime today ''smart_balance'' t all_tasks = Inr (160, e)
           \<and> sublist ''Due TODAY'' e \<and> sublist ''Importance: 5/10'' e
           \<and> sublist ''Quick win'' e"
proof -
  let ?e = "fire @ '' Due TODAY | '' @ gem @ '' Importance: 5/10 | '' @ high_voltage
              @ '' Quick win ('' @ less_equal_sign @ ''1hr)''"
  from assms(4) have "filter (\<lambda>u. get_id t 0 \<in> set (get_dependencies u)) all_tasks = []"
    by (simp add: filter_empty_conv)
  with assms(1-3) have "calculate_score strptime today ''smart_balance'' t all_tasks = Inr (160, ?e)"
    by (rule scenario_due_today_value)
  moreover have "?e = (fire @ '' '') @ ''Due TODAY'' @ ('' | '' @ gem @ '' Importance: 5/10 | ''
                   @ high_voltage @ '' Quick win ('' @ less_equal_sign @ ''1hr)'')"
    by simp
  then have "sublist ''Due TODAY'' ?e"
    by (simp only: sublist_appendI)
  moreover have "?e = (fire @ '' Due TODAY | '' @ gem @ '' '') @ ''Importance: 5/10''
                   @ ('' | '' @ high_voltage @ '' Quick win ('' @ less_equal_sign @ ''1hr)'')"
    by simp
  then have "sublist ''Importance: 5/10'' ?e"
    by (simp only: sublist_appendI)
  moreover have "?e = (fire @ '' Due TODAY | '' @ gem @ '' Importance: 5/10 | '' @ high_voltage @ '' '')
                   @ ''Quick win'' @ ('' ('' @ less_equal_sign @ ''1hr)'')"
    by simp
  then have "sublist ''Quick win'' ?e"
    by (simp only: sublist_appendI)
  ultimately show ?thesis by blast
qed

text \<open>A task due today, given as a string, among two tasks that do not depend on it.\<close>

theorem smart_balance_scenario_due_today_witness:
  "\<exists>e. calculate_score (\<lambda>s. if s = ''2025-11-25'' then Some 739580 else None) 739580
          ''smart_balance''
          \<lparr>task_id = Some 1, title = Val ''Quick Task'', due_date = Val (DateStr ''2025-11-25''),
           estimated_hours = Val 1, importance = Val 5, dependencies = Some []\<rparr>
          [\<lparr>task_id = Some 1, title = Val ''Quick Task'', due_date = Val (DateStr ''2025-11-25''),
            estimated_hours = Val 1, importance = Val 5, dependencies = Some []\<rparr>,
           \<lparr>task_id = Some 2, title = Val ''Other'', due_date = Val (DateStr ''2025-11-25''),
            estimated_hours = Val 3, importance = Val 7, dependencies = Some [4]\<rparr>]
        = Inr (160, e)
      \<and> sublist ''Due TODAY'' e \<and> sublist ''Importance: 5/10'' e \<and> sublist ''Quick win'' e"
  by (rule smart_balance_scenario_due_today)
     (simp_all add: parse_due_date_def get_id_def get_dependencies_def)

subsection \<open>The balanced score on Python's numbers\<close>

lemma and_then_simps [simp]:
  "and_then (Inl e) f = Inl e"
  "and_then (Inr x) f = f x"
  by (simp_all add: and_then_def)

lemma and_then_assoc: "and_then (and_then r f) g = and_then r (\<lambda>x. and_then (f x) g)"
  by (cases r) simp_all

lemma urgency_float_not_overdue:
  "0 \<le> days \<Longrightarrow> urgency_float ops days = Inr (Exact (fst (urgency days)), snd (urgency days))"
  by (simp add: urgency_float_def urgency_def)

lemma three_term_sum_not_overdue:
  assumes "0 \<le> days"
  shows "three_term_sum ops days imp hours =
           Inr (Exact (fst (urgency days) + real_of_int (imp * 8) + fst (effort hours)),
                [snd (urgency days), gem @ '' Importance: '' @ str_int imp @ ''/10'']
                  @ snd (effort hours))"
  by (simp add: three_term_sum_def urgency_float_not_overdue [OF assms])

lemma calculate_smart_balance_float_value:
  "calculate_smart_balance_float ops today (Some due) (Some imp) (Some hours) deps all_tasks tid reasons =
     and_then (three_term_sum ops (due - today) imp hours) (\<lambda>(s3, reasons3).
       if 0 < length (filter (\<lambda>t. tid \<in> set (get_dependencies t)) all_tasks)
       then and_then
              (plus_number ops s3
                 (Exact (real (20 * length (filter (\<lambda>t. tid \<in> set (get_dependencies t)) all_tasks)))))
              (\<lambda>s4. Inr (s4, reasons @ reasons3 @
                    [unlocked @ '' Unblocks '' @
                     str_int (int (length (filter (\<lambda>t. tid \<in> set (get_dependencies t)) all_tasks)))
                     @ '' task(s)'']))
       else Inr (s3, reasons @ reasons3))"
proof (cases "urgency_float ops (due - today)")
  case (Inl e)
  then show ?thesis
    by (simp add: calculate_smart_balance_float_def three_term_sum_def)
next
  case (Inr ur)
  obtain u r where ur: "ur = (u, r)" by (cases ur)
  show ?thesis
  proof (cases "plus_number ops (Exact 0) u")
    case (Inl e)
    with Inr ur show ?thesis
      by (simp add: calculate_smart_balance_float_def three_term_sum_def)
  next
    case s1: (Inr s1)
    show ?thesis
    proof (cases "plus_number ops s1 (Exact (real_of_int (imp * 8)))")
      case (Inl e)
      with Inr ur s1 show ?thesis
        by (simp add: calculate_smart_balance_float_def three_term_sum_def)
    next
      case s2: (Inr s2)
      show ?thesis
      proof (cases "plus_number ops s2 (Exact (fst (effort hours)))")
        case (Inl e)
        with Inr ur s1 s2 show ?thesis
          by (simp add: calculate_smart_balance_float_def three_term_sum_def)
      next
        case s3: (Inr s3)
        with Inr ur s1 s2 show ?thesis
          by (simp add: calculate_smart_balance_float_def three_term_sum_def
              blocking_count_length Let_def mult.commute)
      qed
    qed
  qed
qed

lemma py_round2_Ints: "x \<in> \<int> \<Longrightarrow> py_round2 x = x"
  by (auto elim!: Ints_cases simp: py_round2_of_int)

lemma urgency_Ints: "0 \<le> days \<Longrightarrow> fst (urgency days) \<in> \<int>"
  by (simp add: urgency_def)

lemma effort_Ints: "fst (effort hours) \<in> \<int>"
  by (simp add: effort_def)

lemma plus_number_exact_arithmetic:
  "\<exists>n. plus_number exact_arithmetic a b = Inr n \<and> number_value n = number_value a + number_value b"
  by (cases a; cases b) (simp_all add: exact_arithmetic_def)

lemma plus_number_exact_arithmetic_value:
  "and_then (plus_number exact_arithmetic a b) (\<lambda>n. Inr (number_value n, r))
     = Inr (number_value a + number_value b, r)"
  using plus_number_exact_arithmetic [of a b] by auto

lemma three_term_sum_exact_arithmetic:
  "three_term_sum exact_arithmetic days imp hours =
     Inr (if days < 0
          then Float (fst (urgency days) + real_of_int (imp * 8) + fst (effort hours))
          else Exact (fst (urgency days) + real_of_int (imp * 8) + fst (effort hours)),
          [snd (urgency days), gem @ '' Importance: '' @ str_int imp @ ''/10'']
            @ snd (effort hours))"
proof (cases "days < 0")
  case True
  then show ?thesis
    by (simp add: three_term_sum_def urgency_float_def urgency_def exact_arithmetic_def Let_def)
next
  case False
  then have "0 \<le> days" by simp
  from three_term_sum_not_overdue [OF this] False show ?thesis by simp
qed

lemma calculate_smart_balance_exact_arithmetic:
  "calculate_smart_balance today due imp hours deps all_tasks tid reasons =
     and_then (calculate_smart_balance_float exact_arithmetic today due imp hours deps all_tasks tid reasons)
       (\<lambda>(n, r). Inr (number_value n, r))"
proof (cases due)
  case None
  then show ?thesis
    by (simp add: calculate_smart_balance_def calculate_smart_balance_float_def)
next
  case due: (Some d)
  show ?thesis
  proof (cases imp)
    case None
    with due show ?thesis
      by (simp add: calculate_smart_balance_def calculate_smart_balance_float_def
          urgency_float_def exact_arithmetic_def Let_def)
  next
    case imp: (Some i)
    show ?thesis
    proof (cases hours)
      case None
      with due imp show ?thesis
        by (simp add: calculate_smart_balance_def calculate_smart_balance_float_def
            urgency_float_def exact_arithmetic_def Let_def)
    next
      case (Some h)
      with due imp show ?thesis
        by (simp add: calculate_smart_balance_value calculate_smart_balance_float_value
            three_term_sum_exact_arithmetic and_then_assoc plus_number_exact_arithmetic_value algebra_simps)
    qed
  qed
qed

lemma plus_number_Exact:
  "plus_number ops a b = Inr (Exact x) \<Longrightarrow> \<exists>y z. a = Exact y \<and> b = Exact z \<and> x = y + z"
  by (cases a; cases b) (auto simp: and_then_def split: sum.splits)

lemma urgency_float_Exact:
  "urgency_float ops days = Inr (Exact x, r) \<Longrightarrow> x \<in> \<int>"
  by (auto simp: urgency_float_def Let_def and_then_def split: if_splits sum.splits
      dest!: plus_number_Exact)

lemma three_term_sum_Exact:
  assumes "three_term_sum ops days imp hours = Inr (Exact x, r)"
  shows "x \<in> \<int>"
proof -
  from assms obtain u ur s1 s2 where
    u: "urgency_float ops days = Inr (u, ur)"
    and s1: "plus_number ops (Exact 0) u = Inr s1"
    and s2: "plus_number ops s1 (Exact (real_of_int (imp * 8))) = Inr s2"
    and s3: "plus_number ops s2 (Exact (fst (effort hours))) = Inr (Exact x)"
    by (auto simp: three_term_sum_def and_then_def split: sum.splits)
  from plus_number_Exact [OF s3] obtain y2 where y2: "s2 = Exact y2" "x = y2 + fst (effort hours)"
    by auto
  from plus_number_Exact [OF s2 [unfolded y2(1)]] obtain y1 where
    y1: "s1 = Exact y1" "y2 = y1 + real_of_int (imp * 8)"
    by auto
  from plus_number_Exact [OF s1 [unfolded y1(1)]] obtain y0 where
    y0: "u = Exact y0" "y1 = 0 + y0"
    by auto
  from urgency_float_Exact [OF u [unfolded y0(1)]] have "y0 \<in> \<int>" .
  with y0 y1 y2 effort_Ints [of hours] show ?thesis by simp
qed

lemma calculate_smart_balance_float_Exact:
  assumes "calculate_smart_balance_float ops today due imp hours deps all_tasks tid reasons = Inr (Exact x, r)"
  shows "x \<in> \<int>"
proof -
  from assms obtain d i h where dih: "due = Some d" "imp = Some i" "hours = Some h"
    by (auto simp: calculate_smart_balance_float_def and_then_def
        split: option.splits sum.splits prod.splits)
  let ?k = "length (filter (\<lambda>t. tid \<in> set (get_dependencies t)) all_tasks)"
  from assms [unfolded dih calculate_smart_balance_float_value]
  obtain s3 r3 where t: "three_term_sum ops (d - today) i h = Inr (s3, r3)"
    and c: "(if 0 < ?k then and_then (plus_number ops s3 (Exact (real (20 * ?k))))
                (\<lambda>s4. Inr (s4, reasons @ r3 @ [unlocked @ '' Unblocks '' @ str_int (int ?k) @ '' task(s)'']))
             else Inr (s3, reasons @ r3)) = Inr (Exact x, r)"
    by (auto simp: and_then_def split: sum.splits)
  show ?thesis
  proof (cases "0 < ?k")
    case True
    with c have "plus_number ops s3 (Exact (real (20 * ?k))) = Inr (Exact x)"
      by (auto simp: and_then_def split: sum.splits)
    from plus_number_Exact [OF this] obtain y where y: "s3 = Exact y" "x = y + real (20 * ?k)"
      by auto
    from three_term_sum_Exact [OF t [unfolded y(1)]] have "y \<in> \<int>" .
    with y(2) show ?thesis by simp
  next
    case False
    with c have "s3 = Exact x" by simp
    with t show ?thesis by (auto dest: three_term_sum_Exact)
  qed
qed

lemma round_number_exact_arithmetic:
  "(\<And>x. n = Exact x \<Longrightarrow> x \<in> \<int>) \<Longrightarrow>
     number_value (round_number exact_arithmetic n) = py_round2 (number_value n)"
  by (cases n) (simp_all add: py_round2_Ints exact_arithmetic_def)

lemma other_strategies_Ints:
  "calculate_fastest_wins hours imp rs = Inr (s, r) \<Longrightarrow> s \<in> \<int>"
  "calculate_high_impact today imp due rs = Inr (s, r) \<Longrightarrow> s \<in> \<int>"
  "calculate_deadline_driven today due imp rs = Inr (s, r) \<Longrightarrow> s \<in> \<int>"
  by (auto simp: calculate_fastest_wins_def calculate_high_impact_def
      calculate_deadline_driven_def Let_def split: option.splits if_splits)

lemma calculate_score_exact_arithmetic:
  "calculate_score strptime today strategy t all_tasks =
     and_then (calculate_score_float exact_arithmetic strptime today strategy t all_tasks)
       (\<lambda>(n, e). Inr (number_value n, e))"
proof (cases "parse_due_date strptime (due_date t)")
  case (Inl e)
  then show ?thesis by (simp add: calculate_score_def calculate_score_float_def)
next
  case (Inr due)
  let ?imp = "get_default (importance t) 5"
  let ?hours = "get_default (estimated_hours t) 1"
  have exact: "(case r of Inl e \<Rightarrow> Inl e | Inr (score, reasons) \<Rightarrow> Inr (py_round2 score, join '' | '' reasons))
      = and_then (and_then (and_then r (\<lambda>(s, r). Inr (Exact s, r)))
                   (\<lambda>(score, reasons). Inr (round_number exact_arithmetic score, join '' | '' reasons)))
          (\<lambda>(n, e). Inr (number_value n, e))"
    if "\<And>s rs. r = Inr (s, rs) \<Longrightarrow> s \<in> \<int>" for r :: "py_error + (real \<times> string list)"
    using that by (cases r) (auto simp: py_round2_Ints)
  consider (f) "strategy = ''fastest_wins''"
    | (h) "strategy \<noteq> ''fastest_wins''" "strategy = ''high_impact''"
    | (d) "strategy \<noteq> ''fastest_wins''" "strategy \<noteq> ''high_impact''" "strategy = ''deadline_driven''"
    | (b) "strategy \<noteq> ''fastest_wins''" "strategy \<noteq> ''high_impact''" "strategy \<noteq> ''deadline_driven''"
    by blast
  then show ?thesis
  proof cases
    case f
    with Inr show ?thesis
      using exact [of "calculate_fastest_wins ?hours ?imp []"]
      by (simp add: calculate_score_def calculate_score_float_def other_strategies_Ints)
  next
    case h
    with Inr show ?thesis
      using exact [of "calculate_high_impact today ?imp due []"]
      by (simp add: calculate_score_def calculate_score_float_def other_strategies_Ints)
  next
    case d
    with Inr show ?thesis
      using exact [of "calculate_deadline_driven today due ?imp []"]
      by (simp add: calculate_score_def calculate_score_float_def other_strategies_Ints)
  next
    case b
    let ?r = "calculate_smart_balance_float exact_arithmetic today due ?imp ?hours
                (get_dependencies t) all_tasks (get_id t 0) []"
    have "(case and_then ?r (\<lambda>(n, r). Inr (number_value n, r)) of
             Inl e \<Rightarrow> Inl e
           | Inr (score, reasons) \<Rightarrow> Inr (py_round2 score, join '' | '' reasons))
        = and_then (and_then ?r
                   (\<lambda>(score, reasons). Inr (round_number exact_arithmetic score, join '' | '' reasons)))
          (\<lambda>(n, e). Inr (number_value n, e))"
    proof (cases ?r)
      case (Inl e)
      then show ?thesis by simp
    next
      case r: (Inr nr)
      obtain n rs where nr: "nr = (n, rs)" by (cases nr)
      have "number_value (round_number exact_arithmetic n) = py_round2 (number_value n)"
        using r [unfolded nr] by (intro round_number_exact_arithmetic)
          (auto dest: calculate_smart_balance_float_Exact)
      with r nr show ?thesis by simp
    qed
    with Inr b show ?thesis
      by (simp add: calculate_score_def calculate_score_float_def
          calculate_smart_balance_exact_arithmetic)
  qed
qed

text \<open>
  Claim C2. Let exactly \<open>k\<close> tasks of \<open>all_tasks\<close> hold the id of task \<open>x\<close> in their
  dependencies. Then \<open>_calculate_smart_balance\<close> returns the sum of the urgency, the
  importance and the effort terms for \<open>k = 0\<close>, and that sum plus \<open>20 * k\<close> for
  \<open>k > 0\<close>, the additions being those of the program on its numbers; the fragment
  \<open>Unblocks\<close> is in the explanation only for \<open>k > 0\<close>; \<open>calculate_score\<close> returns this
  score rounded. For a task that is not overdue all numbers are integers, and the score
  is the integer \<open>urgency + importance * 8 + effort + 20 * k\<close>.
\<close>

theorem smart_balance_blocking_bonus:
  assumes "parse_due_date strptime (due_date x) = Inr (Some due)"
    and "get_default (importance x) 5 = Some imp"
    and "get_default (estimated_hours x) 1 = Some hours"
    and "k = length (filter (\<lambda>t. get_id x 0 \<in> set (get_dependencies t)) all_tasks)"
  shows "calculate_smart_balance_float ops today (Some due) (Some imp) (Some hours)
           (get_dependencies x) all_tasks (get_id x 0) [] =
         and_then (three_term_sum ops (due - today) imp hours) (\<lambda>(s3, reasons3).
           if 0 < k
           then and_then (plus_number ops s3 (Exact (real (20 * k))))
                  (\<lambda>s4. Inr (s4, reasons3 @ [unlocked @ '' Unblocks '' @ str_int (int k) @ '' task(s)'']))
           else Inr (s3, reasons3))
       \<and> calculate_score_float ops strptime today ''smart_balance'' x all_tasks =
         and_then (three_term_sum ops (due - today) imp hours) (\<lambda>(s3, reasons3).
           if 0 < k
           then and_then (plus_number ops s3 (Exact (real (20 * k))))
                  (\<lambda>s4. Inr (round_number ops s4,
                          join '' | '' (reasons3 @ [unlocked @ '' Unblocks '' @ str_int (int k) @ '' task(s)''])))
           else Inr (round_number ops s3, join '' | '' reasons3))
       \<and> (today \<le> due \<longrightarrow>
           calculate_score_float ops strptime today ''smart_balance'' x all_tasks =
             Inr (Exact (fst (urgency (due - today)) + real_of_int (imp * 8) + fst (effort hours)
                         + real (20 * k)),
                  join '' | ''
                    ([snd (urgency (due - today)), gem @ '' Importance: '' @ str_int imp @ ''/10'']
                     @ snd (effort hours)
                     @ (if 0 < k then [unlocked @ '' Unblocks '' @ str_int (int k) @ '' task(s)'']
                        else []))))"
proof (intro conjI impI)
  let ?three = "three_term_sum ops (due - today) imp hours"
  show inner: "calculate_smart_balance_float ops today (Some due) (Some imp) (Some hours)
           (get_dependencies x) all_tasks (get_id x 0) [] =
         and_then ?three (\<lambda>(s3, reasons3).
           if 0 < k
           then and_then (plus_number ops s3 (Exact (real (20 * k))))
                  (\<lambda>s4. Inr (s4, reasons3 @ [unlocked @ '' Unblocks '' @ str_int (int k) @ '' task(s)'']))
           else Inr (s3, reasons3))"
    unfolding assms(4) calculate_smart_balance_float_value by (simp cong: if_cong)
  show outer: "calculate_score_float ops strptime today ''smart_balance'' x all_tasks =
         and_then ?three (\<lambda>(s3, reasons3).
           if 0 < k
           then and_then (plus_number ops s3 (Exact (real (20 * k))))
                  (\<lambda>s4. Inr (round_number ops s4,
                          join '' | '' (reasons3 @ [unlocked @ '' Unblocks '' @ str_int (int k) @ '' task(s)''])))
           else Inr (round_number ops s3, join '' | '' reasons3))"
  proof (cases ?three)
    case (Inl e)
    with assms(1-3) show ?thesis
      by (simp add: calculate_score_float_def inner)
  next
    case (Inr p)
    obtain s3 reasons3 where p: "p = (s3, reasons3)" by (cases p)
    show ?thesis
    proof (cases "plus_number ops s3 (Exact (real (20 * k)))")
      case (Inl e)
      with Inr p assms(1-3) show ?thesis
        by (simp add: calculate_score_float_def inner)
    next
      case s4: (Inr s4)
      with Inr p assms(1-3) show ?thesis
        by (simp add: calculate_score_float_def inner)
    qed
  qed
  assume "today \<le> due"
  then have "0 \<le> due - today" by simp
  from three_term_sum_not_overdue [OF this, of ops imp hours]
  show "calculate_score_float ops strptime today ''smart_balance'' x all_tasks =
             Inr (Exact (fst (urgency (due - today)) + real_of_int (imp * 8) + fst (effort hours)
                         + real (20 * k)),
                  join '' | ''
                    ([snd (urgency (due - today)), gem @ '' Importance: '' @ str_int imp @ ''/10'']
                     @ snd (effort hours)
                     @ (if 0 < k then [unlocked @ '' Unblocks '' @ str_int (int k) @ '' task(s)'']
                        else [])))"
    unfolding outer by simp
qed

text \<open>The blocking task of the repository's test: one of three tasks depends on it.\<close>

theorem smart_balance_blocking_bonus_witness:
  "\<forall>ops. \<exists>e. calculate_score_float ops (\<lambda>s. None) 100 ''smart_balance''
          \<lparr>task_id = Some 1, title = Val ''Blocker'', due_date = Val (DateObj 105),
           estimated_hours = Val 2, importance = Val 5, dependencies = Some []\<rparr>
          [\<lparr>task_id = Some 1, title = Val ''Blocker'', due_date = Val (DateObj 105),
            estimated_hours = Val 2, importance = Val 5, dependencies = Some []\<rparr>,
           \<lparr>task_id = Some 2, title = Val ''Dependent'', due_date = Val (DateObj 105),
            estimated_hours = Val 2, importance = Val 5, dependencies = Some [1]\<rparr>,
           \<lparr>task_id = Some 3, title = Val ''Regular'', due_date = Val (DateObj 105),
            estimated_hours = Val 2, importance = Val 5, dependencies = Some []\<rparr>]
        = Inr (Exact 125, e)"
proof
  fix ops
  show "\<exists>e. calculate_score_float ops (\<lambda>s. None) 100 ''smart_balance''
          \<lparr>task_id = Some 1, title = Val ''Blocker'', due_date = Val (DateObj 105),
           estimated_hours = Val 2, importance = Val 5, dependencies = Some []\<rparr>
          [\<lparr>task_id = Some 1, title = Val ''Blocker'', due_date = Val (DateObj 105),
            estimated_hours = Val 2, importance = Val 5, dependencies = Some []\<rparr>,
           \<lparr>task_id = Some 2, title = Val ''Dependent'', due_date = Val (DateObj 105),
            estimated_hours = Val 2, importance = Val 5, dependencies = Some [1]\<rparr>,
           \<lparr>task_id = Some 3, title = Val ''Regular'', due_date = Val (DateObj 105),
            estimated_hours = Val 2, importance = Val 5, dependencies = Some []\<rparr>]
        = Inr (Exact 125, e)"
    using smart_balance_blocking_bonus
      [of "\<lambda>s. None"
          "\<lparr>task_id = Some 1, title = Val ''Blocker'', due_date = Val (DateObj 105),
            estimated_hours = Val 2, importance = Val 5, dependencies = Some []\<rparr>"
          105 5 2 1
          "[\<lparr>task_id = Some 1, title = Val ''Blocker'', due_date = Val (DateObj 105),
             estimated_hours = Val 2, importance = Val 5, dependencies = Some []\<rparr>,
            \<lparr>task_id = Some 2, title = Val ''Dependent'', due_date = Val (DateObj 105),
             estimated_hours = Val 2, importance = Val 5, dependencies = Some [1]\<rparr>,
            \<lparr>task_id = Some 3, title = Val ''Regular'', due_date = Val (DateObj 105),
             estimated_hours = Val 2, importance = Val 5, dependencies = Some []\<rparr>]"
          ops 100, THEN conjunct2, THEN conjunct2]
    by (simp add: parse_due_date_def get_id_def get_dependencies_def urgency_def effort_def)
qed

subsection \<open>Monotonicity in the importance\<close>






subsection \<open>Overdue against future\<close>



subsection \<open>A lower bound for valid tasks\<close>

lemma valid_task_is_scored:
  assumes "validate_task strptime t = Inr (True, '''')"
  shows "\<exists>s e. calculate_score strptime today strategy t all_tasks = Inr (s, e)"
proof -
  from validate_task_ok [OF assms] obtain h i d where
    "estimated_hours t = Val h" "importance t = Val i"
    "parse_due_date strptime (due_date t) = Inr (Some d)"
    by blast
  then show ?thesis
    by (simp add: calculate_score_def calculate_fastest_wins_def calculate_high_impact_def
        calculate_deadline_driven_def calculate_smart_balance_value Let_def split_beta)
qed



section \<open>Properties of the cycle detector\<close>

text \<open>
  \<open>has_cycle\<close> always returns: \<open>set.remove\<close> finds its element, since the loop takes
  from \<open>rec_stack\<close> only ids that were not visited when it met them.
\<close>

lemma has_cycle_returns:
  "\<exists>found v r. has_cycle task_map tid visited rec_stack = Inr (found, v, r)
      \<and> visited \<subseteq> v \<and> tid \<in> v \<and> (\<not> found \<longrightarrow> (rec_stack \<inter> visited) - {tid} \<subseteq> r)"
  "\<exists>found v r. has_cycle_for task_map deps visited rec_stack = Inr (found, v, r)
      \<and> visited \<subseteq> v \<and> (\<not> found \<longrightarrow> rec_stack \<inter> visited \<subseteq> r)"
proof (induct task_map tid visited rec_stack and task_map deps visited rec_stack
       rule: has_cycle_has_cycle_for.induct)
  case (1 task_map tid visited rec_stack)
  show ?case
  proof (cases "map_of task_map tid")
    case None
    then show ?thesis by (auto simp: has_cycle.simps)
  next
    case (Some t)
    from 1 [OF Some] obtain found v r where
      f: "has_cycle_for task_map (get_dependencies t) (insert tid visited) (insert tid rec_stack)
            = Inr (found, v, r)"
      and v: "insert tid visited \<subseteq> v"
      and r: "\<not> found \<longrightarrow> insert tid rec_stack \<inter> insert tid visited \<subseteq> r"
      by blast
    show ?thesis
    proof (cases found)
      case True
      with f v Some show ?thesis by (auto simp: has_cycle.simps)
    next
      case False
      with r have "tid \<in> r" "(rec_stack \<inter> visited) - {tid} \<subseteq> r - {tid}" by auto
      with f v Some False show ?thesis by (auto simp: has_cycle.simps)
    qed
  qed
next
  case (2 task_map visited rec_stack)
  show ?case by auto
next
  case (3 task_map dep_id deps visited rec_stack)
  show ?case
  proof (cases "dep_id \<in> visited")
    case True
    with 3(3) show ?thesis by auto
  next
    case False
    from 3(1) [OF False] obtain found v r where
      h: "has_cycle task_map dep_id visited rec_stack = Inr (found, v, r)"
      and v: "visited \<subseteq> v"
      and r: "\<not> found \<longrightarrow> (rec_stack \<inter> visited) - {dep_id} \<subseteq> r"
      by blast
    show ?thesis
    proof (cases found)
      case True
      with h v False show ?thesis by auto
    next
      case nf: False
      from 3(2) [OF False h refl refl nf] obtain found' v' r' where
        l: "has_cycle_for task_map deps v r = Inr (found', v', r')"
        and v': "v \<subseteq> v'" and r': "\<not> found' \<longrightarrow> r \<inter> v \<subseteq> r'"
        by blast
      from r nf False have "rec_stack \<inter> visited \<subseteq> r" by auto
      with v r' have "\<not> found' \<longrightarrow> rec_stack \<inter> visited \<subseteq> r'" by auto
      with l v v' h nf False show ?thesis by auto
    qed
  qed
qed

lemma get_dependencies_internal:
  "get_dependencies (internal_dependencies ids t) = filter (\<lambda>d. d \<in> ids) (get_dependencies t)"
  by (simp add: get_dependencies_def internal_dependencies_def split: option.splits)

lemma get_id_internal: "get_id (internal_dependencies ids t) d = get_id t d"
  by (simp add: get_id_def internal_dependencies_def)

lemma has_cycle_internal:
  fixes task_map :: "(int \<times> task) list"
  defines "ids \<equiv> \<lambda>tm :: (int \<times> task) list. fst ` set tm"
  defines "pruned \<equiv> \<lambda>tm. map (\<lambda>(k, t). (k, internal_dependencies (ids tm) t)) tm"
  shows "tid \<in> ids task_map \<Longrightarrow> rec_stack \<subseteq> ids task_map \<Longrightarrow>
     \<exists>found v r. has_cycle task_map tid visited rec_stack = Inr (found, v, r)
       \<and> has_cycle (pruned task_map) tid (visited \<inter> ids task_map) rec_stack
            = Inr (found, v \<inter> ids task_map, r)
       \<and> r \<subseteq> ids task_map"
    and "rec_stack \<subseteq> ids task_map \<Longrightarrow>
     \<exists>found v r. has_cycle_for task_map deps visited rec_stack = Inr (found, v, r)
       \<and> has_cycle_for (pruned task_map) (filter (\<lambda>d. d \<in> ids task_map) deps)
            (visited \<inter> ids task_map) rec_stack
            = Inr (found, v \<inter> ids task_map, r)
       \<and> r \<subseteq> ids task_map"
proof (induct task_map tid visited rec_stack and task_map deps visited rec_stack
       rule: has_cycle_has_cycle_for.induct)
  case (1 task_map tid visited rec_stack)
  from 1(2) obtain t where t: "map_of task_map tid = Some t"
    by (cases "map_of task_map tid") (auto simp: ids_def map_of_eq_None_iff)
  have t': "map_of (pruned task_map) tid = Some (internal_dependencies (ids task_map) t)"
    unfolding pruned_def by (simp add: map_of_map t)
  from 1(2,3) have "insert tid rec_stack \<subseteq> ids task_map" by simp
  from 1(1) [OF t this] obtain found v r where
    a: "has_cycle_for task_map (get_dependencies t) (insert tid visited) (insert tid rec_stack)
          = Inr (found, v, r)"
    and b: "has_cycle_for (pruned task_map) (filter (\<lambda>d. d \<in> ids task_map) (get_dependencies t))
          (insert tid visited \<inter> ids task_map) (insert tid rec_stack) = Inr (found, v \<inter> ids task_map, r)"
    and c: "r \<subseteq> ids task_map"
    by blast
  from 1(2) have i: "insert tid visited \<inter> ids task_map = insert tid (visited \<inter> ids task_map)"
    by auto
  from c have "r - {tid} \<subseteq> ids task_map" by auto
  moreover obtain found' v' r' where "has_cycle task_map tid visited rec_stack = Inr (found', v', r')"
    using has_cycle_returns(1) by blast
  ultimately show ?case
    using a b c t t' unfolding i
    by (auto simp: has_cycle.simps [of task_map] has_cycle.simps [of "pruned task_map"]
          get_dependencies_internal split: if_splits)
next
  case (2 task_map visited rec_stack)
  then show ?case by auto
next
  case (3 task_map dep_id deps visited rec_stack)
  note rs = \<open>rec_stack \<subseteq> ids task_map\<close>
  show ?case
  proof (cases "dep_id \<in> ids task_map")
    case inside: True
    show ?thesis
    proof (cases "dep_id \<in> visited")
      case True
      show ?thesis
      proof (cases "dep_id \<in> rec_stack")
        case True
        with \<open>dep_id \<in> visited\<close> inside rs show ?thesis by auto
      next
        case False
        from 3(3) [OF _ False rs] \<open>dep_id \<in> visited\<close> False inside show ?thesis by auto
      qed
    next
      case False
      from 3(1) [OF False inside rs] obtain found v r where
        a: "has_cycle task_map dep_id visited rec_stack = Inr (found, v, r)"
        and b: "has_cycle (pruned task_map) dep_id (visited \<inter> ids task_map) rec_stack
                  = Inr (found, v \<inter> ids task_map, r)"
        and c: "r \<subseteq> ids task_map"
        by blast
      show ?thesis
      proof (cases found)
        case True
        with a b c False inside show ?thesis by auto
      next
        case nf: False
        from 3(2) [OF False a refl refl nf c] a b nf False inside show ?thesis by auto
      qed
    qed
  next
    case outside: False
    with rs have nrs: "dep_id \<notin> rec_stack" by auto
    from outside have f: "filter (\<lambda>d. d \<in> ids task_map) (dep_id # deps)
                            = filter (\<lambda>d. d \<in> ids task_map) deps"
      by simp
    show ?thesis
    proof (cases "dep_id \<in> visited")
      case True
      from 3(3) [OF _ nrs rs] True nrs show ?thesis unfolding f by auto
    next
      case False
      from outside have "map_of task_map dep_id = None"
        by (simp add: ids_def map_of_eq_None_iff)
      with nrs have a: "has_cycle task_map dep_id visited rec_stack
                          = Inr (False, insert dep_id visited, rec_stack)"
        by (simp add: has_cycle.simps)
      from outside have i: "insert dep_id visited \<inter> ids task_map = visited \<inter> ids task_map"
        by auto
      from 3(2) [OF False a refl refl _ rs] a False show ?thesis unfolding f i by auto
    qed
  qed
qed

lemma detect_for_returns: "\<exists>circular'. detect_for task_map keys visited circular = Inr circular'"
proof (induction keys arbitrary: visited circular)
  case Nil
  show ?case by simp
next
  case (Cons tid keys)
  obtain found v r where "has_cycle task_map tid visited {} = Inr (found, v, r)"
    using has_cycle_returns(1) by blast
  with Cons show ?case by simp
qed

lemma detect_for_internal:
  assumes "set keys \<subseteq> fst ` set task_map"
  shows "detect_for (map (\<lambda>(k, t). (k, internal_dependencies (fst ` set task_map) t)) task_map)
           keys (visited \<inter> fst ` set task_map) circular
         = detect_for task_map keys visited circular"
  using assms
proof (induction keys arbitrary: visited circular)
  case Nil
  show ?case by simp
next
  case (Cons tid keys)
  then have tid: "tid \<in> fst ` set task_map" and keys: "set keys \<subseteq> fst ` set task_map"
    by simp_all
  show ?case
  proof (cases "tid \<in> visited")
    case True
    with tid Cons.IH [OF keys] show ?thesis by simp
  next
    case False
    from has_cycle_internal(1) [OF tid, of "{}" visited] obtain found v r where
      "has_cycle task_map tid visited {} = Inr (found, v, r)"
      "has_cycle (map (\<lambda>(k, t). (k, internal_dependencies (fst ` set task_map) t)) task_map)
         tid (visited \<inter> fst ` set task_map) {} = Inr (found, v \<inter> fst ` set task_map, r)"
      by auto
    with False tid Cons.IH [OF keys] show ?thesis by simp
  qed
qed

lemma update_map_values:
  "AList.update k (f v) (map (\<lambda>(k, t). (k, f t)) al) = map (\<lambda>(k, t). (k, f t)) (AList.update k v al)"
  by (induction al) auto

lemma build_task_map_fold_internal:
  "foldl (\<lambda>m (i, t). AList.update (get_id t (int i)) t m)
         (map (\<lambda>(k, t). (k, internal_dependencies ids t)) acc)
         (enumerate n (map (internal_dependencies ids) tasks))
   = map (\<lambda>(k, t). (k, internal_dependencies ids t))
       (foldl (\<lambda>m (i, t). AList.update (get_id t (int i)) t m) acc (enumerate n tasks))"
proof (induction tasks arbitrary: n acc)
  case Nil
  show ?case by simp
next
  case (Cons t tasks)
  show ?case
    using Cons [where n = "Suc n" and acc = "AList.update (get_id t (int n)) t acc"]
    by (simp add: get_id_internal update_map_values)
qed

lemma build_task_map_internal:
  "build_task_map (map (internal_dependencies ids) tasks)
     = map (\<lambda>(k, t). (k, internal_dependencies ids t)) (build_task_map tasks)"
  using build_task_map_fold_internal [of ids "[]" 0 tasks]
  by (simp add: build_task_map_def)

lemma detect_returns: "\<exists>circular. detect_circular_dependencies tasks = Inr circular"
  by (simp add: detect_circular_dependencies_def Let_def detect_for_returns)

lemma detect_internal:
  "detect_circular_dependencies (map (internal_dependencies (task_ids tasks)) tasks)
     = detect_circular_dependencies tasks"
proof -
  let ?tm = "build_task_map tasks"
  have ids: "task_ids tasks = fst ` set ?tm" by (simp add: task_ids_def)
  have keys: "map fst (map (\<lambda>(k, t). (k, internal_dependencies (fst ` set ?tm) t)) ?tm) = map fst ?tm"
    by (simp add: case_prod_unfold comp_def)
  show ?thesis
    using detect_for_internal [of "map fst ?tm" ?tm "{}" "[]"]
    by (simp add: detect_circular_dependencies_def Let_def build_task_map_internal ids keys del: map_map)
qed

lemma blocking_count_internal:
  "tid \<in> ids \<Longrightarrow> blocking_count tid (map (internal_dependencies ids) all_tasks) = blocking_count tid all_tasks"
  by (induction all_tasks) (simp_all add: blocking_count_def get_dependencies_internal)

lemma calculate_score_internal:
  "get_id t 0 \<in> ids \<Longrightarrow>
     calculate_score strptime today strategy t (map (internal_dependencies ids) all_tasks)
       = calculate_score strptime today strategy t all_tasks"
  by (simp add: calculate_score_def calculate_smart_balance_def blocking_count_internal Let_def
      split: sum.splits option.splits)

text \<open>
  Claim C1. On the graph \<open>1 \<rightarrow> 2 \<rightarrow> 3 \<rightarrow> 1\<close> of the repository's test the detector
  returns the list \<open>["1"]\<close>: the id the traversal started from, and neither \<open>2\<close> nor
  \<open>3\<close>, which lie on the same cycle and are visited by then. On the acyclic graph
  \<open>1 \<rightarrow> 2\<close> it returns the empty list.
\<close>

theorem detect_three_cycle_reports_first_id_only:
  "detect_circular_dependencies tasks_with_cycle = Inr [''1'']
   \<and> detect_circular_dependencies
        [\<lparr>task_id = Some 1, title = Absent, due_date = Absent, estimated_hours = Absent,
          importance = Absent, dependencies = Some [2]\<rparr>,
         \<lparr>task_id = Some 2, title = Absent, due_date = Absent, estimated_hours = Absent,
          importance = Absent, dependencies = Some []\<rparr>] = Inr []"
  by (simp add: detect_circular_dependencies_def tasks_with_cycle_def build_task_map_def
      get_id_def get_dependencies_def has_cycle.simps str_int_def str_nat.simps digit_char_def)

text \<open>
  A task that depends on itself is counted among the tasks it blocks, whenever it is
  one of \<open>all_tasks\<close>; and a task set that is this task alone has its id reported.
\<close>

lemma self_dependency_is_counted:
  assumes "t \<in> set all_tasks" and "get_id t 0 \<in> set (get_dependencies t)"
  shows "1 \<le> blocking_count (get_id t 0) all_tasks"
proof -
  from assms have "filter (\<lambda>u. get_id t 0 \<in> set (get_dependencies u)) all_tasks \<noteq> []"
    by (auto simp: filter_empty_conv)
  then have "0 < length (filter (\<lambda>u. get_id t 0 \<in> set (get_dependencies u)) all_tasks)"
    by simp
  then show ?thesis by (simp add: blocking_count_length Suc_le_eq)
qed

lemma self_dependency_alone_is_reported:
  assumes "task_id t = Some i" and "i \<in> set (get_dependencies t)"
  shows "detect_circular_dependencies [t] = Inr [str_int i]"
proof -
  have "\<exists>v r. has_cycle_for [(i, t)] deps visited rec_stack = Inr (True, v, r)"
    if "i \<in> set deps" "i \<in> visited" "i \<in> rec_stack" for deps visited rec_stack
    using that
  proof (induction deps arbitrary: visited rec_stack)
    case Nil
    then show ?case by simp
  next
    case (Cons d deps)
    show ?case
    proof (cases "d \<in> visited")
      case True
      with Cons show ?thesis by (cases "d \<in> rec_stack") auto
    next
      case False
      with Cons.prems have d: "d \<noteq> i" "i \<in> set deps" by auto
      with Cons.prems have h: "has_cycle [(i, t)] d visited rec_stack
                                 = Inr (False, insert d visited, insert d rec_stack - {d})"
        by (simp add: has_cycle.simps)
      from Cons.IH [of "insert d visited" "insert d rec_stack - {d}"] d Cons.prems
      show ?thesis using False h by auto
    qed
  qed
  from this [of "get_dependencies t" "{i}" "{i}"] assms(2) obtain v r where
    "has_cycle_for [(i, t)] (get_dependencies t) {i} {i} = Inr (True, v, r)" by blast
  then show ?thesis
    using assms(1)
    by (simp add: detect_circular_dependencies_def build_task_map_def get_id_def has_cycle.simps)
qed

text \<open>
  Claim C9. In the task set \<open>1 \<rightarrow> 2, 2 \<rightarrow> 2\<close> the second task depends on itself. It
  counts toward its own blocking count, which is 2 (the first task and itself). The
  detector, which meets it on the traversal from task 1, returns the list \<open>["1"]\<close>:
  the id of a task on no cycle, and not the id \<open>2\<close> of the self-loop.
\<close>

theorem self_loop_behind_another_task_not_reported:
  "blocking_count 2
     [\<lparr>task_id = Some 1, title = Absent, due_date = Absent, estimated_hours = Absent,
       importance = Absent, dependencies = Some [2]\<rparr>,
      \<lparr>task_id = Some 2, title = Absent, due_date = Absent, estimated_hours = Absent,
       importance = Absent, dependencies = Some [2]\<rparr>] = 2
   \<and> detect_circular_dependencies
     [\<lparr>task_id = Some 1, title = Absent, due_date = Absent, estimated_hours = Absent,
       importance = Absent, dependencies = Some [2]\<rparr>,
      \<lparr>task_id = Some 2, title = Absent, due_date = Absent, estimated_hours = Absent,
       importance = Absent, dependencies = Some [2]\<rparr>] = Inr [''1'']"
  by (simp add: detect_circular_dependencies_def build_task_map_def blocking_count_def
      get_id_def get_dependencies_def has_cycle.simps str_int_def str_nat.simps digit_char_def)

subsection \<open>The detector under the recursion limit\<close>


lemma has_cycle_bounded_enough:
  "tid \<notin> visited \<Longrightarrow> card (fst ` set task_map - visited) < frames \<Longrightarrow>
     has_cycle_bounded frames task_map tid visited rec_stack
       = has_cycle task_map tid visited rec_stack"
  "card (fst ` set task_map - visited) < frames \<Longrightarrow>
     has_cycle_for_bounded frames task_map deps visited rec_stack
       = has_cycle_for task_map deps visited rec_stack"
proof (induct task_map tid visited rec_stack and task_map deps visited rec_stack
       arbitrary: frames and frames rule: has_cycle_has_cycle_for.induct)
  case (1 task_map tid visited rec_stack)
  from 1(3) have f: "frames \<noteq> 0" by simp
  show ?case
  proof (cases "map_of task_map tid")
    case None
    with f show ?thesis by (simp add: has_cycle_bounded.simps has_cycle.simps)
  next
    case (Some t)
    then have "tid \<in> fst ` set task_map"
      by (force dest: map_of_SomeD)
    with 1(2) have "fst ` set task_map - insert tid visited \<subset> fst ` set task_map - visited"
      by auto
    then have "card (fst ` set task_map - insert tid visited) < card (fst ` set task_map - visited)"
      by (intro psubset_card_mono) simp_all
    with 1(3) have "card (fst ` set task_map - insert tid visited) < frames - 1" by simp
    from 1(1) [OF Some this] f Some show ?thesis
      by (simp add: has_cycle_bounded.simps [of frames] has_cycle.simps [of task_map tid])
  qed
next
  case (2 task_map visited rec_stack)
  show ?case by simp
next
  case (3 task_map dep_id deps visited rec_stack)
  show ?case
  proof (cases "dep_id \<in> visited")
    case True
    with 3(3) [OF _ _ 3(4)] show ?thesis by auto
  next
    case False
    from 3(1) [OF False False 3(4)]
    have eq: "has_cycle_bounded frames task_map dep_id visited rec_stack
                = has_cycle task_map dep_id visited rec_stack" .
    obtain found v r where h: "has_cycle task_map dep_id visited rec_stack = Inr (found, v, r)"
      and v: "visited \<subseteq> v"
      using has_cycle_returns(1) by blast
    show ?thesis
    proof (cases found)
      case True
      with False eq h show ?thesis by simp
    next
      case nf: False
      from v have "card (fst ` set task_map - v) \<le> card (fst ` set task_map - visited)"
        by (intro card_mono) auto
      with 3(4) have "card (fst ` set task_map - v) < frames" by simp
      from 3(2) [OF False h refl refl nf this] False eq h nf show ?thesis by simp
    qed
  qed
qed


lemma detect_for_bounded_enough:
  assumes "card (fst ` set task_map) < frames"
  shows "detect_for_bounded frames task_map keys visited circular
           = detect_for task_map keys visited circular"
proof (induction keys arbitrary: visited circular)
  case Nil
  show ?case by simp
next
  case (Cons tid keys)
  show ?case
  proof (cases "tid \<in> visited")
    case True
    with Cons [of visited circular] show ?thesis by simp
  next
    case False
    have "card (fst ` set task_map - visited) \<le> card (fst ` set task_map)"
      by (intro card_mono) auto
    with assms have "card (fst ` set task_map - visited) < frames" by simp
    from has_cycle_bounded_enough(1) [OF False this]
    have eq: "has_cycle_bounded frames task_map tid visited {} = has_cycle task_map tid visited {}" .
    obtain found v r where h: "has_cycle task_map tid visited {} = Inr (found, v, r)"
      using has_cycle_returns(1) by blast
    from Cons [of v "if found then circular @ [str_int tid] else circular"] False eq h
    show ?thesis by simp
  qed
qed

lemma length_update: "length (AList.update k v al) \<le> Suc (length al)"
  by (induction al) auto

lemma length_build_task_map: "length (build_task_map tasks) \<le> length tasks"
proof -
  have "length (foldl (\<lambda>m (i, t). AList.update (get_id t (int i)) t m) acc (enumerate n tasks))
          \<le> length acc + length tasks" for acc n
  proof (induction tasks arbitrary: acc n)
    case Nil
    show ?case by simp
  next
    case (Cons t tasks)
    from Cons [of "AList.update (get_id t (int n)) t acc" "Suc n"]
      length_update [of "get_id t (int n)" t acc]
    show ?case by simp
  qed
  from this [of "[]" 0] show ?thesis by (simp add: build_task_map_def)
qed


lemma detect_bounded_enough:
  assumes "length tasks < frames"
  shows "detect_circular_dependencies_bounded frames tasks = detect_circular_dependencies tasks"
proof -
  have "card (fst ` set (build_task_map tasks)) \<le> length (build_task_map tasks)"
    using card_image_le [of "set (build_task_map tasks)" fst] card_length [of "build_task_map tasks"]
    by simp
  with length_build_task_map [of tasks] assms
  have "card (fst ` set (build_task_map tasks)) < frames" by simp
  from detect_for_bounded_enough [OF this] show ?thesis
    by (simp add: detect_circular_dependencies_bounded_def detect_circular_dependencies_def Let_def)
qed










subsection \<open>Scoring without overflow\<close>


lemma plus_number_returns:
  assumes "never_overflows ops"
  shows "\<exists>n. plus_number ops a b = Inr n"
proof -
  from assms obtain z where "float_add ops (number_value a) (number_value b) = Inr z"
    unfolding never_overflows_def by blast
  then show ?thesis by (cases a; cases b) simp_all
qed

lemma urgency_float_returns:
  assumes "never_overflows ops"
  shows "\<exists>u r. urgency_float ops d = Inr (u, r)"
proof (cases "d < 0")
  case True
  from assms obtain p where p: "float_power ops (real_of_int \<bar>d\<bar>) 1.5 = Inr p"
    unfolding never_overflows_def by blast
  from plus_number_returns [OF assms] obtain n where
    "plus_number ops (Exact 100) (Float p) = Inr n" by blast
  with True p show ?thesis by (simp add: urgency_float_def Let_def)
next
  case False
  then show ?thesis by (simp add: urgency_float_def)
qed

lemma calculate_smart_balance_float_returns:
  assumes "never_overflows ops"
  shows "\<exists>s r. calculate_smart_balance_float ops today (Some due) (Some imp) (Some hours)
                  deps all_tasks tid reasons = Inr (s, r)"
proof -
  from urgency_float_returns [OF assms] obtain u ur where
    u: "urgency_float ops (due - today) = Inr (u, ur)" by blast
  from plus_number_returns [OF assms] obtain s1 where
    s1: "plus_number ops (Exact 0) u = Inr s1" by blast
  from plus_number_returns [OF assms] obtain s2 where
    s2: "plus_number ops s1 (Exact (real_of_int (imp * 8))) = Inr s2" by blast
  from plus_number_returns [OF assms] obtain s3 where
    s3: "plus_number ops s2 (Exact (fst (effort hours))) = Inr s3" by blast
  from plus_number_returns [OF assms] obtain s4 where
    s4: "plus_number ops s3 (Exact (real_of_int (blocking_count tid all_tasks * 20))) = Inr s4"
    by blast
  from u s1 s2 s3 s4 show ?thesis
    by (simp add: calculate_smart_balance_float_def Let_def)
qed

lemma calculate_score_float_returns:
  assumes "validate_task strptime t = Inr (True, '''')" and "never_overflows ops"
  shows "\<exists>s e. calculate_score_float ops strptime today strategy t all_tasks = Inr (s, e)"
proof -
  from validate_task_ok [OF assms(1)] obtain h i d where
    f: "estimated_hours t = Val h" "importance t = Val i"
       "parse_due_date strptime (due_date t) = Inr (Some d)"
    by blast
  from calculate_smart_balance_float_returns [OF assms(2)] obtain s r where
    "calculate_smart_balance_float ops today (Some d) (Some i) (Some h)
       (get_dependencies t) all_tasks (get_id t 0) [] = Inr (s, r)"
    by blast
  with f show ?thesis
    by (simp add: calculate_score_float_def calculate_fastest_wins_def calculate_high_impact_def
        calculate_deadline_driven_def Let_def split_beta)
qed




subsection \<open>Dependencies on absent ids\<close>




section \<open>Properties of the analysis endpoint\<close>

lemma validate_for_accepted:
  "\<exists>errs. validate_for sp indexed validated errors = Inr (validated @ accepted_tasks sp indexed, errs)"
proof (induction indexed arbitrary: validated errors)
  case Nil
  show ?case by (simp add: accepted_tasks_def)
next
  case (Cons p indexed)
  obtain idx t where p: "p = (idx, t)" by (cases p)
  from validate_task_cases [of sp t] show ?case
  proof
    assume v: "validate_task sp t = Inr (True, [])"
    from Cons [of "validated @ [if task_id t = None then t\<lparr>task_id := Some (int idx + 1)\<rparr> else t]" errors]
    show ?thesis by (simp add: p v accepted_tasks_def)
  next
    assume "\<exists>msg. validate_task sp t = Inr (False, msg)"
    then obtain msg where v: "validate_task sp t = Inr (False, msg)" ..
    from Cons [of validated "errors @ [''Task '' @ str_int (int idx + 1) @ '': '' @ msg]"]
    show ?thesis by (simp add: p v accepted_tasks_def)
  qed
qed

lemma accepted_tasks_valid:
  "t \<in> set (accepted_tasks sp indexed) \<Longrightarrow> validate_task sp t = Inr (True, [])"
  by (auto simp: accepted_tasks_def validate_task_id)









text \<open>
  When the view answers: a strategy outside the four choices is refused, and a request
  with fewer tasks than the recursion limit leaves frames is answered, unless a float
  operation overflows.
\<close>

lemma analyze_tasks_unknown_strategy:
  assumes "s \<notin> set strategy_choices"
  shows "analyze_tasks ops frames strptime today \<lparr>data_tasks = ts, data_strategy = Some s\<rparr>
           = Inr (HTTP_400 ''Invalid request format'' Serializer_errors)"
  using assms by (simp add: analyze_tasks_def validated_strategy_def split: option.splits)

lemma score_for_returns:
  assumes "\<forall>t \<in> set ts. validate_task sp t = Inr (True, [])" and "never_overflows ops"
  shows "\<exists>scored. score_for ops sp today strategy all_tasks ts acc = Inr scored"
  using assms(1)
proof (induction ts arbitrary: acc)
  case Nil
  show ?case by simp
next
  case (Cons t ts)
  then have "validate_task sp t = Inr (True, [])" by simp
  from calculate_score_float_returns [OF this assms(2)] obtain s e where
    c: "calculate_score_float ops sp today strategy t all_tasks = Inr (s, e)" by blast
  from Cons.IH [of "acc @ [task.extend t \<lparr>priority_score = s, explanation = e\<rparr>]"] Cons.prems
  show ?case by (simp add: c)
qed

lemma length_accepted_tasks: "length (accepted_tasks sp indexed) \<le> length indexed"
  by (simp add: accepted_tasks_def)

lemma analyze_tasks_answers:
  assumes "data_tasks data = Some tasks" and "length tasks < frames" and "never_overflows ops"
  shows "\<exists>resp. analyze_tasks ops frames strptime today data = Inr resp"
proof (cases "validated_strategy (data_strategy data)")
  case None
  with assms(1) show ?thesis by (simp add: analyze_tasks_def)
next
  case (Some strategy)
  let ?acc = "accepted_tasks strptime (enumerate 0 tasks)"
  obtain errors where v: "validate_for strptime (enumerate 0 tasks) [] [] = Inr (?acc, errors)"
    using validate_for_accepted [of strptime "enumerate 0 tasks" "[]" "[]"] by auto
  have "length ?acc \<le> length tasks"
    using length_accepted_tasks [of strptime "enumerate 0 tasks"] by simp
  with assms(2) have "length ?acc < frames" by simp
  then have "detect_circular_dependencies_bounded frames ?acc = detect_circular_dependencies ?acc"
    by (rule detect_bounded_enough)
  with detect_returns [of ?acc] obtain circular where
    d: "detect_circular_dependencies_bounded frames ?acc = Inr circular" by auto
  have "\<forall>t \<in> set ?acc. validate_task strptime t = Inr (True, [])"
    by (simp add: accepted_tasks_valid)
  from score_for_returns [OF this assms(3), of today strategy ?acc "[]"] obtain scored where
    s: "score_for ops strptime today strategy ?acc ?acc [] = Inr scored" by blast
  from assms(1) Some v d s show ?thesis
    by (simp add: analyze_tasks_def Let_def)
qed



end
